theory Spec2Isabelle
  imports Main "HOL-Library.Monad_Syntax"
begin

section \<open>JavaScript values and string primitives used by the updater\<close>

text \<open>
  Strings are lists of code units.  The patterns the program searches for are ASCII
  literals, so every non-ASCII unit behaves as an ordinary character that matches
  nothing but itself.

  An optional string (\<open>string | undefined\<close>) is a \<open>string option\<close>.  JavaScript's
  truthiness test on such a value (\<open>if (x)\<close>, \<open>x || y\<close>, \<open>x ? a : b\<close>) is false for
  \<open>undefined\<close> and for the empty string.
\<close>

definition truthy :: "string option \<Rightarrow> bool" where
  "truthy v = (case v of None \<Rightarrow> False | Some s \<Rightarrow> s \<noteq> [])"

text \<open>\<open>a || b\<close> on optional strings: the first operand when it is truthy, else the second.\<close>

definition or_js :: "string option \<Rightarrow> string option \<Rightarrow> string option" where
  "or_js a b = (if truthy a then a else b)"

text \<open>\<open>a ?? b\<close>: the default only replaces \<open>undefined\<close>.\<close>

definition nullish :: "string option \<Rightarrow> string \<Rightarrow> string" where
  "nullish a d = (case a of None \<Rightarrow> d | Some s \<Rightarrow> s)"

text \<open>
  Decimal digits, and the decimal rendering of an integer.  A template literal prints a
  Number with these digits when the Number is an integer that a double holds exactly and
  whose magnitude is below \<open>10^21\<close>; from \<open>10^21\<close> on it switches to the exponent notation,
  and past \<open>2^53\<close> the digits are those of the nearest double.  \<open>String_of_int\<close> is therefore
  the printer of the source only on that range, and the statements about printed counts
  carry the range as a hypothesis (\<open>safe_integer\<close> below).
\<close>

definition is_digit :: "char \<Rightarrow> bool" where
  "is_digit c = (c \<in> set ''0123456789'')"

definition digit_val :: "char \<Rightarrow> nat" where
  "digit_val c = (of_char c :: nat) - 48"

definition digit_char :: "nat \<Rightarrow> char" where
  "digit_char n = ''0123456789'' ! (n mod 10)"

function decimal :: "nat \<Rightarrow> string" where
  "decimal n = (if n < 10 then [digit_char n] else decimal (n div 10) @ [digit_char n])"
  by pat_completeness auto
termination
  by (relation "measure (\<lambda>n. n)") auto

declare decimal.simps [simp del]

definition String_of_int :: "int \<Rightarrow> string" where
  "String_of_int i = (if i < 0 then CHR ''-'' # decimal (nat (- i)) else decimal (nat i))"

text \<open>The number a string of decimal digits denotes.\<close>

definition read_decimal :: "string \<Rightarrow> nat" where
  "read_decimal ds = foldl (\<lambda>a c. 10 * a + digit_val c) 0 ds"

text \<open>\<open>Array.prototype.join\<close> on a list of strings.\<close>

fun join :: "string \<Rightarrow> string list \<Rightarrow> string" where
  "join sep [] = []"
| "join sep [x] = x"
| "join sep (x # y # ys) = x @ sep @ join sep (y # ys)"

text \<open>
  Character comparison: exact, and the case-insensitive comparison of the \<open>i\<close> flag
  (ASCII letters only: a non-ASCII unit never canonicalises to an ASCII one).
\<close>

definition to_lower :: "char \<Rightarrow> char" where
  "to_lower c =
     (case map_of (zip ''ABCDEFGHIJKLMNOPQRSTUVWXYZ'' ''abcdefghijklmnopqrstuvwxyz'') c of
        None \<Rightarrow> c
      | Some l \<Rightarrow> l)"

definition exact :: "char \<Rightarrow> char \<Rightarrow> bool" where
  "exact a b = (a = b)"

definition ci :: "char \<Rightarrow> char \<Rightarrow> bool" where
  "ci a b = (to_lower a = to_lower b)"

text \<open>\<open>starts_with eq p s\<close>: the pattern \<open>p\<close> matches at the start of \<open>s\<close>.\<close>

fun starts_with :: "(char \<Rightarrow> char \<Rightarrow> bool) \<Rightarrow> string \<Rightarrow> string \<Rightarrow> bool" where
  "starts_with eq [] s = True"
| "starts_with eq (p # ps) [] = False"
| "starts_with eq (p # ps) (c # cs) = (eq p c \<and> starts_with eq ps cs)"

text \<open>\<open>index_of eq p s\<close>: the first position of \<open>s\<close> at which \<open>p\<close> matches
  (\<open>String.prototype.indexOf\<close> when \<open>eq\<close> is exact), \<open>None\<close> for \<open>-1\<close>.\<close>

fun index_of :: "(char \<Rightarrow> char \<Rightarrow> bool) \<Rightarrow> string \<Rightarrow> string \<Rightarrow> nat option" where
  "index_of eq p [] = (if p = [] then Some 0 else None)"
| "index_of eq p (c # cs) =
     (if starts_with eq p (c # cs) then Some 0 else map_option Suc (index_of eq p cs))"

definition includes_js :: "string \<Rightarrow> string \<Rightarrow> bool" where
  "includes_js s p = (index_of exact p s \<noteq> None)"

definition includes_ci :: "string \<Rightarrow> string \<Rightarrow> bool" where
  "includes_ci s p = (index_of ci p s \<noteq> None)"

subsection \<open>Replacement templates\<close>

text \<open>
  \<open>String.prototype.replace\<close> with a string as second argument expands that string
  as a template (ECMAScript \<open>GetSubstitution\<close>): \<open>$$\<close> is a dollar sign, \<open>$&\<close> the
  matched text, \<open>$`\<close> the text before the match, \<open>$'\<close> the text after it, \<open>$n\<close> and
  \<open>$nn\<close> the capture group of that number when the pattern has that many groups;
  everything else is copied.  The pattern of this program has no named groups, so
  \<open>$<\<close> is copied.
\<close>

fun GetSubstitution ::
  "string \<Rightarrow> string \<Rightarrow> string \<Rightarrow> string list \<Rightarrow> string \<Rightarrow> string" where
  "GetSubstitution matched preceding following captures [] = []"
| "GetSubstitution matched preceding following captures [c] = [c]"
| "GetSubstitution matched preceding following captures (c # d # rest) =
     (if c \<noteq> CHR ''$'' then c # GetSubstitution matched preceding following captures (d # rest)
      else if d = CHR ''$'' then CHR ''$'' # GetSubstitution matched preceding following captures rest
      else if d = CHR 0x60 then preceding @ GetSubstitution matched preceding following captures rest
      else if d = CHR ''&'' then matched @ GetSubstitution matched preceding following captures rest
      else if d = CHR 0x27 then following @ GetSubstitution matched preceding following captures rest
      else if is_digit d then
        (case rest of
           [] \<Rightarrow>
             (if 1 \<le> digit_val d \<and> digit_val d \<le> length captures
              then captures ! (digit_val d - 1)
              else [c, d])
         | e # rest' \<Rightarrow>
             (if is_digit e \<and> 10 * digit_val d + digit_val e \<le> length captures
              then
                (if 1 \<le> 10 * digit_val d + digit_val e
                 then captures ! (10 * digit_val d + digit_val e - 1)
                        @ GetSubstitution matched preceding following captures rest'
                 else c # d # e # GetSubstitution matched preceding following captures rest')
              else if 1 \<le> digit_val d \<and> digit_val d \<le> length captures
              then captures ! (digit_val d - 1)
                     @ GetSubstitution matched preceding following captures (e # rest')
              else c # d # GetSubstitution matched preceding following captures (e # rest')))
      else c # GetSubstitution matched preceding following captures (d # rest))"

text \<open>\<open>doc.replace(pattern, template)\<close> with a string pattern: the first occurrence only.\<close>

definition replace_string :: "string \<Rightarrow> string \<Rightarrow> string \<Rightarrow> string" where
  "replace_string doc pat template =
     (case index_of exact pat doc of
        None \<Rightarrow> doc
      | Some i \<Rightarrow>
          take i doc
            @ GetSubstitution pat (take i doc) (drop (i + length pat) doc) [] template
            @ drop (i + length pat) doc)"

section \<open>Data model\<close>

text \<open>
  The interfaces of the source.  Times and the two configured intervals are integral
  millisecond counts (what \<open>Date.now()\<close> returns); \<open>TrackInfo\<close> and \<open>CacheEntry\<close>
  share field names, which are written qualified.
\<close>

record TrackInfo =
  title :: string
  artist :: string
  album :: "string option"
  albumArt :: "string option"
  nowPlaying :: bool
  playedAt :: int

record CacheEntry =
  title :: string
  artist :: string
  album :: "string option"
  albumArt :: "string option"
  nowPlaying :: bool
  lastUpdatedIso :: string

record EnvConfig =
  lastfmApiKey :: string
  lastfmUsername :: string
  githubToken :: string
  githubOwner :: string
  githubRepo :: string
  githubBranch :: string
  readmePath :: string
  placeholder :: string
  cacheFile :: string
  updateIntervalMs :: int
  cacheTtlMs :: int
  userAgent :: string

text \<open>
  The parts of the JavaScript runtime the program calls and whose results it only
  passes on or compares: parsing of a date string (\<open>None\<close> for an invalid date, whose
  \<open>getTime()\<close> is \<open>NaN\<close>), printing of a date, \<open>Number\<close> of the provider's decimal
  seconds string, and the two \<open>Buffer\<close> conversions.  They are parameters of the model.
\<close>

record js_runtime =
  Date_getTime :: "string \<Rightarrow> int option"
  Date_toISOString :: "int \<Rightarrow> string"
  Number_of :: "string \<Rightarrow> int"
  Buffer_decode :: "string \<Rightarrow> string \<Rightarrow> string"
  Buffer_base64 :: "string \<Rightarrow> string"

text \<open>
  The provider's JSON, with each optional chain the program reads flattened to the
  value the chain yields: \<open>recent.artist?.["#text"]\<close> is \<open>artist_text\<close>,
  \<open>recent.date?.uts\<close> is \<open>date_uts\<close>, \<open>recent["@attr"]?.nowplaying\<close> is
  \<open>attr_nowplaying\<close>, and \<open>payload.recenttracks?.track\<close> is the body of the response.
\<close>

record LastFmImage =
  image_text :: "string option"
  image_size :: "string option"

record LastFmTrack =
  track_name :: "string option"
  artist_text :: "string option"
  album_text :: "string option"
  images :: "LastFmImage list option"
  date_uts :: "string option"
  attr_nowplaying :: "string option"

record GithubContentResponse =
  type :: "string option"
  sha :: string
  content :: "string option"
  encoding :: "string option"

record PutBody =
  message :: string
  content :: string
  sha :: string
  branch :: string

record 'a response =
  ok :: bool
  status :: nat
  json :: 'a

datatype error =
    LastFmRequestFailed nat
  | GithubFetchFailed nat
  | ReadmeContentMissing
  | GithubUpdateFailed nat

datatype request = LastFmGet | GithubGet | GithubPut PutBody

section \<open>Snippet renderer\<close>

text \<open>
  The integers a Number holds exactly, as \<open>Number.isSafeInteger\<close> decides them: magnitude
  at most \<open>Number.MAX_SAFE_INTEGER = 2^53 - 1\<close>.
\<close>

definition safe_integer :: "int \<Rightarrow> bool" where
  "safe_integer x = (\<bar>x\<bar> \<le> 2 ^ 53 - 1)"

text \<open>
  \<open>getTimeAgo\<close>, with the reading of \<open>Date.now()\<close> as first argument.  The source computes
  in doubles; the embedding computes on integers, with \<open>div\<close> for \<open>Math.floor\<close> of a
  quotient.  The two agree when the clock reading, the timestamp and their difference are
  safe integers: the subtraction is then exact, a quotient of an integer of magnitude
  below \<open>2^53\<close> by 1000, 60, 3600 or 86400 that is not itself an integer lies further from
  the next integer than the rounding error of the division, so that the floor of the rounded
  quotient is the floor of the exact one, and every count that is printed lies between 0
  and \<open>2^53\<close>, where the template literal prints plain decimal digits.  Outside that range,
  and for a timestamp that is fractional or \<open>NaN\<close>, the source rounds or propagates \<open>NaN\<close>;
  this is not modelled, and the statements about the tiers of the label are made for safe
  integers only.
\<close>

definition getTimeAgo :: "int \<Rightarrow> int \<Rightarrow> string" where
  "getTimeAgo now timestamp =
     (let seconds = (now - timestamp) div 1000 in
      if seconds < 60 then ''just now''
      else if seconds < 3600 then String_of_int (seconds div 60) @ '' minutes ago''
      else if seconds < 86400 then String_of_int (seconds div 3600) @ '' hours ago''
      else String_of_int (seconds div 86400) @ '' days ago'')"

definition formatTrack :: "int \<Rightarrow> TrackInfo \<Rightarrow> string" where
  \<open>formatTrack now track =
     (let timeAgo = getTimeAgo now (playedAt track) in
      if truthy (TrackInfo.albumArt track) then
        (let lines0 = [''<strong>'' @ TrackInfo.title track @ ''</strong>'',
                       ''by '' @ TrackInfo.artist track];
             lines1 = (if truthy (TrackInfo.album track)
                       then lines0 @ [''from '' @ the (TrackInfo.album track)]
                       else lines0);
             lines2 = lines1 @ [[]];
             lines3 = (if TrackInfo.nowPlaying track
                       then lines2 @ [''<em>now playing</em>'']
                       else lines2 @ [timeAgo]);
             info = join ''<br/>'' lines3
         in ''<img src="'' @ the (TrackInfo.albumArt track)
              @ ''" alt="" width="128" height="128" align="left" /><samp>'' @ info @ ''</samp>'')
      else ''<samp><strong>'' @ TrackInfo.title track @ ''</strong><br/>by ''
             @ TrackInfo.artist track @ ''</samp>'')\<close>

section \<open>Change decision engine\<close>

text \<open>\<open>shouldUpdate\<close>, with the reading of \<open>Date.now()\<close> as an argument.\<close>

definition shouldUpdate ::
  "EnvConfig \<Rightarrow> js_runtime \<Rightarrow> int \<Rightarrow> TrackInfo \<Rightarrow> CacheEntry option \<Rightarrow> bool" where
  "shouldUpdate config rt now track cache =
     (case cache of
        None \<Rightarrow> True
      | Some c \<Rightarrow>
          if CacheEntry.title c \<noteq> TrackInfo.title track
             \<or> CacheEntry.artist c \<noteq> TrackInfo.artist track
             \<or> CacheEntry.album c \<noteq> TrackInfo.album track
             \<or> CacheEntry.albumArt c \<noteq> TrackInfo.albumArt track
             \<or> CacheEntry.nowPlaying c \<noteq> TrackInfo.nowPlaying track
          then True
          else (case Date_getTime rt (lastUpdatedIso c) of
                  None \<Rightarrow> True
                | Some last_ms \<Rightarrow> now - last_ms > cacheTtlMs config))"

section \<open>Document patcher\<close>

text \<open>
  The pattern \<open>/(<span[^>]*data-music[^>]*>)[\s\S]*?(<\/span>)/i\<close>, read as the
  backtracking matcher the engine runs.  Each part maps the rest of the input to the
  rests at which it can stop, in the order in which the engine tries them: a literal
  (compared case-insensitively) stops in one place or fails, the greedy run \<open>[^>]*\<close>
  tries the longest run first, the lazy run \<open>[\s\S]*?\<close> the shortest first.  The
  matches at the start of \<open>s\<close> are the runs through all parts, in order of priority;
  each is given as the length of the first group and the length of the lazy middle (the
  second group is the seven characters after it).  The engine takes the first.
\<close>

definition lit :: "string \<Rightarrow> string \<Rightarrow> string list" where
  "lit p s = (if starts_with ci p s then [drop (length p) s] else [])"

fun greedy_star :: "(char \<Rightarrow> bool) \<Rightarrow> string \<Rightarrow> string list" where
  "greedy_star P [] = [[]]"
| "greedy_star P (c # cs) = (if P c then greedy_star P cs else []) @ [c # cs]"

fun lazy_star :: "string \<Rightarrow> string list" where
  "lazy_star [] = [[]]"
| "lazy_star (c # cs) = (c # cs) # lazy_star cs"

definition not_gt :: "char \<Rightarrow> bool" where
  "not_gt c = (c \<noteq> CHR ''>'')"

definition spanPattern_matches :: "string \<Rightarrow> (nat \<times> nat) list" where
  "spanPattern_matches s =
     do {
       s1 \<leftarrow> lit ''<span'' s;
       s2 \<leftarrow> greedy_star not_gt s1;
       s3 \<leftarrow> lit ''data-music'' s2;
       s4 \<leftarrow> greedy_star not_gt s3;
       s5 \<leftarrow> lit ''>'' s4;
       s6 \<leftarrow> lazy_star s5;
       s7 \<leftarrow> lit ''</span>'' s6;
       [(length s - length s5, length s5 - length s6)]
     }"

definition first :: "'a list \<Rightarrow> 'a option" where
  "first xs = (case xs of [] \<Rightarrow> None | x # _ \<Rightarrow> Some x)"

definition spanPattern_at :: "string \<Rightarrow> (nat \<times> nat) option" where
  "spanPattern_at s = first (spanPattern_matches s)"

text \<open>
  The same match without backtracking (\<open>spanPattern_at_eq\<close> below proves it the same).
  Nothing between \<open><span\<close> and the \<open>>\<close> that ends the first group can be a \<open>>\<close>,
  so the group ends at the first \<open>>\<close> after \<open><span\<close> and matches when \<open>data-music\<close>
  occurs before that \<open>>\<close>; \<open>match_open\<close> returns the length of the group.  The lazy
  middle then ends at the first \<open></span>\<close> after the group.
\<close>

definition match_open :: "string \<Rightarrow> nat option" where
  "match_open s =
     (if starts_with ci ''<span'' s then
        (case index_of exact ''>'' (drop 5 s) of
           None \<Rightarrow> None
         | Some k \<Rightarrow>
             if includes_ci (take k (drop 5 s)) ''data-music'' then Some (5 + k + 1) else None)
      else None)"

definition match_at :: "string \<Rightarrow> (nat \<times> nat) option" where
  "match_at s =
     (case match_open s of
        None \<Rightarrow> None
      | Some n \<Rightarrow>
          (case index_of ci ''</span>'' (drop n s) of
             None \<Rightarrow> None
           | Some j \<Rightarrow> Some (n, j)))"

text \<open>The leftmost match (the pattern has no \<open>g\<close> flag): its index and the two lengths.\<close>

fun spanPattern_exec :: "string \<Rightarrow> (nat \<times> nat \<times> nat) option" where
  "spanPattern_exec [] = None"
| "spanPattern_exec (c # cs) =
     (case spanPattern_at (c # cs) of
        Some (n, j) \<Rightarrow> Some (0, n, j)
      | None \<Rightarrow> map_option (\<lambda>(i, n, j). (Suc i, n, j)) (spanPattern_exec cs))"

definition spanPattern_test :: "string \<Rightarrow> bool" where
  "spanPattern_test s = (spanPattern_exec s \<noteq> None)"

text \<open>\<open>doc.replace(spanPattern, template)\<close>.\<close>

definition replace_spanPattern :: "string \<Rightarrow> string \<Rightarrow> string" where
  "replace_spanPattern doc template =
     (case spanPattern_exec doc of
        None \<Rightarrow> doc
      | Some (i, n, j) \<Rightarrow>
          (let group1 = take n (drop i doc);
               group2 = take 7 (drop (i + n + j) doc);
               matched = take (n + j + 7) (drop i doc)
           in take i doc
                @ GetSubstitution matched (take i doc) (drop (i + n + j + 7) doc)
                    [group1, group2] template
                @ drop (i + n + j + 7) doc))"

text \<open>Lines 139 to 153 of \<open>updateReadme\<close>: the new document, or \<open>None\<close> when neither
  the tagged region nor the placeholder is found.\<close>

definition nextReadme :: "EnvConfig \<Rightarrow> string \<Rightarrow> string \<Rightarrow> string option" where
  "nextReadme config formatted decoded =
     (if spanPattern_test decoded
      then Some (replace_spanPattern decoded (''$1'' @ formatted @ ''$2''))
      else if includes_js decoded (placeholder config)
      then Some (replace_string decoded (placeholder config)
                   (''<span data-music>'' @ formatted @ ''</span>''))
      else None)"

text \<open>
  \<open>updateReadme\<close>.  The host's answer to the GET and its answer to a PUT (a function of
  the body sent) are arguments, as is the clock reading of the rendering.  The result is
  the returned boolean or the error thrown, with the requests sent in order.
\<close>

definition updateReadme ::
  "EnvConfig \<Rightarrow> js_runtime \<Rightarrow> int \<Rightarrow> GithubContentResponse response
     \<Rightarrow> (PutBody \<Rightarrow> unit response) \<Rightarrow> TrackInfo \<Rightarrow> (error + bool) \<times> request list" where
  "updateReadme config rt now response put track =
     (if \<not> ok response then (Inl (GithubFetchFailed (status response)), [GithubGet])
      else
        (let data = json response in
         if type data \<noteq> Some ''file'' \<or> \<not> truthy (GithubContentResponse.content data)
         then (Inl ReadmeContentMissing, [GithubGet])
         else
           (let decoded = Buffer_decode rt (the (GithubContentResponse.content data))
                            (nullish (encoding data) ''base64'');
                formatted = formatTrack now track
            in case nextReadme config formatted decoded of
                 None \<Rightarrow> (Inr False, [GithubGet])
               | Some next \<Rightarrow>
                   if next = decoded then (Inr False, [GithubGet])
                   else
                     (let body = \<lparr> message = ''docs(readme): music -> '' @ TrackInfo.title track
                                                @ '' by '' @ TrackInfo.artist track,
                                     PutBody.content = Buffer_base64 rt next,
                                     PutBody.sha = GithubContentResponse.sha data,
                                     branch = githubBranch config \<rparr>;
                          putResponse = put body
                      in if \<not> ok putResponse
                         then (Inl (GithubUpdateFailed (status putResponse)),
                               [GithubGet, GithubPut body])
                         else (Inr True, [GithubGet, GithubPut body])))))"

text \<open>\<open>fetched rt response doc\<close>: the GET is answered with a file whose content decodes
  to \<open>doc\<close>, which is when \<open>updateReadme\<close> gets as far as patching \<open>doc\<close>.\<close>

definition fetched :: "js_runtime \<Rightarrow> GithubContentResponse response \<Rightarrow> string \<Rightarrow> bool" where
  "fetched rt response doc =
     (ok response \<and> type (json response) = Some ''file''
      \<and> truthy (GithubContentResponse.content (json response))
      \<and> Buffer_decode rt (the (GithubContentResponse.content (json response)))
            (nullish (encoding (json response)) ''base64'') = doc)"

section \<open>Status fetch and poll cycle\<close>

definition find_image :: "LastFmImage list \<Rightarrow> string \<Rightarrow> string option" where
  "find_image imgs sz =
     (case find (\<lambda>img. image_size img = Some sz) imgs of
        None \<Rightarrow> None
      | Some img \<Rightarrow> image_text img)"

text \<open>\<open>fetchRecentTrack\<close>: the provider's answer and the clock reading are arguments.\<close>

definition fetchRecentTrack ::
  "js_runtime \<Rightarrow> int \<Rightarrow> LastFmTrack list option response \<Rightarrow> error + TrackInfo option" where
  "fetchRecentTrack rt now response =
     (if \<not> ok response then Inl (LastFmRequestFailed (status response))
      else
        (case json response of
           None \<Rightarrow> Inr None
         | Some [] \<Rightarrow> Inr None
         | Some (recent # others) \<Rightarrow>
             (let imgs = (case images recent of None \<Rightarrow> [] | Some l \<Rightarrow> l);
                  art = or_js (or_js (find_image imgs ''extralarge'') (find_image imgs ''large''))
                          (find_image imgs ''medium'');
                  live = (attr_nowplaying recent = Some ''true'');
                  uts = (if truthy (date_uts recent)
                         then Number_of rt (the (date_uts recent)) * 1000
                         else now)
              in Inr (Some \<lparr> TrackInfo.title = nullish (track_name recent) ''Unknown track'',
                             TrackInfo.artist = nullish (artist_text recent) ''Unknown artist'',
                             TrackInfo.album = album_text recent,
                             TrackInfo.albumArt = art,
                             TrackInfo.nowPlaying = live,
                             playedAt = uts \<rparr>))))"

text \<open>
  The world of one poll cycle: the cache file (\<open>None\<close> when \<open>loadCache\<close> returns
  \<open>null\<close>) and the requests sent so far.  The answers of the two providers and the four
  clock readings of a cycle are its environment.  A provider always answers with a
  status and a body of the declared shape, and writing the cache file succeeds: a request
  that fails below HTTP, a body that is not JSON and a file system error are not part
  of the model.  \<open>tick\<close> returns the error it throws (\<open>main\<close> logs it and goes on).
\<close>

record world =
  cache :: "CacheEntry option"
  sent :: "request list"

record cycle_env =
  lastfm_answer :: "LastFmTrack list option response"
  github_get :: "GithubContentResponse response"
  github_put :: "PutBody \<Rightarrow> unit response"
  now_fetch :: int
  now_decide :: int
  now_render :: int
  now_save :: int

definition saveCache :: "js_runtime \<Rightarrow> int \<Rightarrow> TrackInfo \<Rightarrow> world \<Rightarrow> world" where
  "saveCache rt now track w =
     w \<lparr> cache := Some \<lparr> CacheEntry.title = TrackInfo.title track,
                          CacheEntry.artist = TrackInfo.artist track,
                          CacheEntry.album = TrackInfo.album track,
                          CacheEntry.albumArt = TrackInfo.albumArt track,
                          CacheEntry.nowPlaying = TrackInfo.nowPlaying track,
                          lastUpdatedIso = Date_toISOString rt now \<rparr> \<rparr>"

definition tick ::
  "EnvConfig \<Rightarrow> js_runtime \<Rightarrow> cycle_env \<Rightarrow> world \<Rightarrow> (error + unit) \<times> world" where
  "tick config rt env w =
     (let w1 = w \<lparr> sent := sent w @ [LastFmGet] \<rparr> in
      case fetchRecentTrack rt (now_fetch env) (lastfm_answer env) of
        Inl e \<Rightarrow> (Inl e, w1)
      | Inr None \<Rightarrow> (Inr (), w1)
      | Inr (Some track) \<Rightarrow>
          if \<not> shouldUpdate config rt (now_decide env) track (cache w1) then (Inr (), w1)
          else
            (case updateReadme config rt (now_render env) (github_get env) (github_put env) track of
               (Inl e, reqs) \<Rightarrow> (Inl e, w1 \<lparr> sent := sent w1 @ reqs \<rparr>)
             | (Inr updated, reqs) \<Rightarrow>
                 (let w2 = w1 \<lparr> sent := sent w1 @ reqs \<rparr> in
                  if updated then (Inr (), saveCache rt (now_save env) track w2)
                  else (Inr (), w2))))"

section \<open>Example inputs\<close>

text \<open>
  Concrete inputs on which the theorems below are instantiated.  The runtime stand-in
  parses one date string (to 1000 ms), prints every date as that string, and uses the
  identity for the two \<open>Buffer\<close> conversions.
\<close>

definition example_config :: EnvConfig where
  "example_config =
     \<lparr> lastfmApiKey = ''key'', lastfmUsername = ''user'', githubToken = ''token'',
       githubOwner = ''april-ivy'', githubRepo = ''april-ivy'', githubBranch = ''main'',
       readmePath = ''README.md'', placeholder = ''%music%'', cacheFile = ''.cache/music.json'',
       updateIntervalMs = 30000, cacheTtlMs = 600000, userAgent = ''april-ivy'' \<rparr>"

definition example_runtime :: js_runtime where
  "example_runtime =
     \<lparr> Date_getTime = (\<lambda>s. if s = ''1970-01-01T00:00:01.000Z'' then Some 1000 else None),
       Date_toISOString = (\<lambda>t. ''1970-01-01T00:00:01.000Z''),
       Number_of = (\<lambda>s. 0),
       Buffer_decode = (\<lambda>c e. c),
       Buffer_base64 = (\<lambda>s. s) \<rparr>"

definition song_a :: TrackInfo where
  "song_a =
     \<lparr> TrackInfo.title = ''Song A'', TrackInfo.artist = ''Artist X'', TrackInfo.album = None,
       TrackInfo.albumArt = Some ''https://x/a.jpg'', TrackInfo.nowPlaying = True,
       playedAt = 0 \<rparr>"

definition cached_a :: "string \<Rightarrow> CacheEntry" where
  "cached_a stamp =
     \<lparr> CacheEntry.title = ''Song A'', CacheEntry.artist = ''Artist X'', CacheEntry.album = None,
       CacheEntry.albumArt = Some ''https://x/a.jpg'', CacheEntry.nowPlaying = True,
       lastUpdatedIso = stamp \<rparr>"

definition live_without_art :: TrackInfo where
  "live_without_art = song_a \<lparr> TrackInfo.albumArt := None \<rparr>"

definition with_album :: TrackInfo where
  "with_album = song_a \<lparr> TrackInfo.album := Some ''Album Z'', TrackInfo.nowPlaying := False \<rparr>"

definition undated_answer :: "LastFmTrack list option response" where
  "undated_answer =
     \<lparr> ok = True, status = 200,
       json = Some [\<lparr> track_name = Some ''Song A'', artist_text = Some ''Artist X'',
                      album_text = None,
                      images = Some [\<lparr> image_text = Some ''https://x/a.jpg'',
                                        image_size = Some ''extralarge'' \<rparr>],
                      date_uts = None, attr_nowplaying = None \<rparr>] \<rparr>"

definition undated_track :: "int \<Rightarrow> TrackInfo" where
  "undated_track fetched_at =
     \<lparr> TrackInfo.title = ''Song A'', TrackInfo.artist = ''Artist X'', TrackInfo.album = None,
       TrackInfo.albumArt = Some ''https://x/a.jpg'', TrackInfo.nowPlaying = False,
       playedAt = fetched_at \<rparr>"

definition tagged_get :: "GithubContentResponse response" where
  "tagged_get =
     \<lparr> ok = True, status = 200,
       json = \<lparr> type = Some ''file'', GithubContentResponse.sha = ''abc'',
                GithubContentResponse.content = Some ''<span data-music>old</span>'',
                encoding = Some ''base64'' \<rparr> \<rparr>"

definition rejecting_put :: "PutBody \<Rightarrow> unit response" where
  "rejecting_put body = \<lparr> ok = False, status = 409, json = () \<rparr>"

definition accepting_put :: "PutBody \<Rightarrow> unit response" where
  "accepting_put body = \<lparr> ok = True, status = 200, json = () \<rparr>"

definition live_answer :: "LastFmTrack list option response" where
  "live_answer =
     \<lparr> ok = True, status = 200,
       json = Some [\<lparr> track_name = Some ''Song A'', artist_text = Some ''Artist X'',
                      album_text = None,
                      images = Some [\<lparr> image_text = Some ''https://x/a.jpg'',
                                        image_size = Some ''extralarge'' \<rparr>],
                      date_uts = None, attr_nowplaying = Some ''true'' \<rparr>] \<rparr>"

definition rejected_cycle :: cycle_env where
  "rejected_cycle =
     \<lparr> lastfm_answer = live_answer, github_get = tagged_get, github_put = rejecting_put,
       now_fetch = 0, now_decide = 10, now_render = 20, now_save = 30 \<rparr>"

definition first_run :: world where
  "first_run = \<lparr> cache = None, sent = [] \<rparr>"

definition rejected_body :: PutBody where
  \<open>rejected_body =
     \<lparr> message = ''docs(readme): music -> Song A by Artist X'',
       PutBody.content = ''<span data-music><img src="https://x/a.jpg" alt="" width="128" height="128" align="left" /><samp><strong>Song A</strong><br/>by Artist X<br/><br/><em>now playing</em></samp></span>'',
       PutBody.sha = ''abc'',
       branch = ''main'' \<rparr>\<close>

definition answer_with :: "string \<Rightarrow> GithubContentResponse response" where
  "answer_with doc =
     \<lparr> ok = True, status = 200,
       json = \<lparr> type = Some ''file'', GithubContentResponse.sha = ''abc'',
                GithubContentResponse.content = Some doc, encoding = Some ''base64'' \<rparr> \<rparr>"

definition closing_title :: TrackInfo where
  "closing_title =
     \<lparr> TrackInfo.title = ''</span>'', TrackInfo.artist = ''Artist X'', TrackInfo.album = None,
       TrackInfo.albumArt = None, TrackInfo.nowPlaying = False, playedAt = 0 \<rparr>"

definition once_patched :: string where
  "once_patched = ''<span data-music><samp><strong></span></strong><br/>by Artist X</samp></span>''"

definition twice_patched :: string where
  "twice_patched = ''<span data-music><samp><strong></span></strong><br/>by Artist X</samp></span></strong><br/>by Artist X</samp></span>''"

definition song_a_patched :: string where
  \<open>song_a_patched = ''# Hi <SPAN id="np" data-music><img src="https://x/a.jpg" alt="" width="128" height="128" align="left" /><samp><strong>Song A</strong><br/>by Artist X<br/><br/><em>now playing</em></samp></Span> bye''\<close>

definition cash_title :: TrackInfo where
  "cash_title =
     \<lparr> TrackInfo.title = ''Ca$$h'', TrackInfo.artist = ''Artist X'', TrackInfo.album = None,
       TrackInfo.albumArt = None, TrackInfo.nowPlaying = False, playedAt = 0 \<rparr>"

definition hundred_title :: TrackInfo where
  "hundred_title = cash_title \<lparr> TrackInfo.title := ''$100 Bill'' \<rparr>"

definition unclosed_doc :: string where
  "unclosed_doc = ''<span data-music> %music%''"

definition unclosed_installed :: string where
  "unclosed_installed = ''<span data-music> <span data-music><samp><strong>Song B</strong><br/>by Artist X</samp></span>''"

definition song_b :: TrackInfo where
  "song_b =
     \<lparr> TrackInfo.title = ''Song B'', TrackInfo.artist = ''Artist X'', TrackInfo.album = None,
       TrackInfo.albumArt = None, TrackInfo.nowPlaying = False, playedAt = 0 \<rparr>"

definition placeholder_doc :: string where
  "placeholder_doc = ''<span>Now</span> %music% and %music%''"

definition placeholder_installed :: string where
  \<open>placeholder_installed = ''<span>Now</span> <span data-music><img src="https://x/a.jpg" alt="" width="128" height="128" align="left" /><samp><strong>Song A</strong><br/>by Artist X<br/><br/><em>now playing</em></samp></span> and %music%''\<close>

definition artless_answer :: "LastFmTrack list option response" where
  "artless_answer =
     \<lparr> ok = True, status = 200,
       json = Some [\<lparr> track_name = Some ''Song A'', artist_text = Some ''Artist X'',
                      album_text = Some [],
                      images = Some [\<lparr> image_text = Some [], image_size = Some ''small'' \<rparr>,
                                     \<lparr> image_text = Some [], image_size = Some ''medium'' \<rparr>,
                                     \<lparr> image_text = Some [], image_size = Some ''large'' \<rparr>,
                                     \<lparr> image_text = Some [], image_size = Some ''extralarge'' \<rparr>],
                      date_uts = None, attr_nowplaying = Some ''true'' \<rparr>] \<rparr>"

definition artless_track :: TrackInfo where
  "artless_track =
     \<lparr> TrackInfo.title = ''Song A'', TrackInfo.artist = ''Artist X'', TrackInfo.album = Some [],
       TrackInfo.albumArt = Some [], TrackInfo.nowPlaying = True, playedAt = 0 \<rparr>"

definition slow_cycle :: cycle_env where
  "slow_cycle =
     \<lparr> lastfm_answer = undated_answer, github_get = tagged_get, github_put = accepting_put,
       now_fetch = 0, now_decide = 10, now_render = 60000, now_save = 60010 \<rparr>"

section \<open>Facts about string search\<close>

lemma starts_with_length: "starts_with eq p s \<Longrightarrow> length p \<le> length s"
  by (induction eq p s rule: starts_with.induct) auto

lemma starts_with_append:
  "length p \<le> length x \<Longrightarrow> starts_with eq p (x @ v) = starts_with eq p x"
  by (induction eq p x rule: starts_with.induct) auto

lemma starts_with_appendI: "starts_with eq p x \<Longrightarrow> starts_with eq p (x @ v)"
  by (simp add: starts_with_append starts_with_length)

lemma starts_with_exact: "starts_with exact p s \<longleftrightarrow> take (length p) s = p \<and> length p \<le> length s"
  by (induction "exact" p s rule: starts_with.induct) (auto simp: exact_def)

lemma starts_with_self: "starts_with exact p (p @ v)"
  by (simp add: starts_with_exact)

lemma index_of_bound: "index_of eq p s = Some k \<Longrightarrow> k + length p \<le> length s"
proof (induction s arbitrary: k)
  case Nil
  then show ?case by (simp split: if_splits)
next
  case (Cons c cs)
  show ?case
  proof (cases "starts_with eq p (c # cs)")
    case True
    with Cons.prems show ?thesis by (auto dest: starts_with_length)
  next
    case False
    with Cons.prems obtain k' where "index_of eq p cs = Some k'" "k = Suc k'" by auto
    with Cons.IH show ?thesis by fastforce
  qed
qed

lemma index_of_starts: "index_of eq p s = Some k \<Longrightarrow> starts_with eq p (drop k s)"
proof (induction s arbitrary: k)
  case Nil
  then show ?case by (simp split: if_splits)
next
  case (Cons c cs)
  then show ?case by (cases "starts_with eq p (c # cs)") auto
qed

lemma index_of_least: "index_of eq p s = Some k \<Longrightarrow> j < k \<Longrightarrow> \<not> starts_with eq p (drop j s)"
proof (induction s arbitrary: k j)
  case Nil
  then show ?case by (simp split: if_splits)
next
  case (Cons c cs)
  show ?case
  proof (cases "starts_with eq p (c # cs)")
    case True
    with Cons.prems show ?thesis by auto
  next
    case False
    with Cons.prems obtain k' where k': "index_of eq p cs = Some k'" "k = Suc k'" by auto
    show ?thesis
    proof (cases j)
      case 0
      with False show ?thesis by simp
    next
      case (Suc j')
      with k' Cons.prems have "j' < k'" by simp
      with Cons.IH k' Suc show ?thesis by simp
    qed
  qed
qed

lemma index_of_SomeI:
  "starts_with eq p (drop k s) \<Longrightarrow> k \<le> length s
     \<Longrightarrow> (\<And>j. j < k \<Longrightarrow> \<not> starts_with eq p (drop j s)) \<Longrightarrow> index_of eq p s = Some k"
proof (induction s arbitrary: k)
  case Nil
  then show ?case by (cases p) auto
next
  case (Cons c cs)
  show ?case
  proof (cases k)
    case 0
    with Cons.prems show ?thesis by simp
  next
    case (Suc k')
    with Cons.prems(3) [of 0] have n: "\<not> starts_with eq p (c # cs)" by simp
    have "index_of eq p cs = Some k'"
    proof (rule Cons.IH)
      show "starts_with eq p (drop k' cs)" using Cons.prems(1) Suc by simp
      show "k' \<le> length cs" using Cons.prems(2) Suc by simp
      show "\<not> starts_with eq p (drop j cs)" if "j < k'" for j
        using Cons.prems(3) [of "Suc j"] that Suc by simp
    qed
    with n Suc show ?thesis by simp
  qed
qed

lemma index_of_None: "index_of eq p s = None \<Longrightarrow> j \<le> length s \<Longrightarrow> \<not> starts_with eq p (drop j s)"
proof (induction s arbitrary: j)
  case Nil
  then show ?case by (cases p) (auto split: if_splits)
next
  case (Cons c cs)
  then show ?case by (cases j) (auto split: if_splits)
qed

lemma index_of_found:
  "starts_with eq p (drop j s) \<Longrightarrow> j \<le> length s \<Longrightarrow> index_of eq p s \<noteq> None"
  using index_of_None by blast

lemma index_of_append: "index_of eq p x = Some k \<Longrightarrow> index_of eq p (x @ v) = Some k"
proof (rule index_of_SomeI)
  assume a: "index_of eq p x = Some k"
  have b: "k + length p \<le> length x" using a by (rule index_of_bound)
  then show "k \<le> length (x @ v)" by simp
  from b show "starts_with eq p (drop k (x @ v))"
    using index_of_starts [OF a] by (simp add: starts_with_append)
  show "\<not> starts_with eq p (drop j (x @ v))" if "j < k" for j
    using index_of_least [OF a that] b that by (simp add: starts_with_append)
qed

lemma index_of_exact_split:
  "index_of exact p s = Some k \<Longrightarrow> s = take k s @ p @ drop (k + length p) s"
proof -
  assume a: "index_of exact p s = Some k"
  from index_of_starts [OF a] have "take (length p) (drop k s) = p"
    by (simp add: starts_with_exact)
  then have "drop k s = p @ drop (length p) (drop k s)"
    by (metis append_take_drop_id)
  then have "s = take k s @ p @ drop (length p) (drop k s)"
    by (metis append_take_drop_id)
  then show ?thesis by (simp add: add.commute)
qed

lemma includes_js_middle: "includes_js (a @ p @ b) p"
proof -
  have "starts_with exact p (drop (length a) (a @ p @ b))"
    by (simp add: starts_with_self)
  then show ?thesis
    unfolding includes_js_def by (rule index_of_found) simp
qed

lemma starts_with_take:
  "length p \<le> q \<Longrightarrow> starts_with eq p (take q y) = starts_with eq p y"
proof (cases "length p \<le> length y")
  case True
  assume "length p \<le> q"
  with True show ?thesis
    using starts_with_append [of p "take q y" eq "drop q y"] by simp
next
  case False
  then have "\<not> starts_with eq p y" "\<not> starts_with eq p (take q y)"
    using starts_with_length [of eq p y] starts_with_length [of eq p "take q y"] by auto
  then show ?thesis by simp
qed

lemma index_of_take:
  assumes a: "index_of eq p x = Some k" and m: "k + length p \<le> m"
  shows "index_of eq p (take m x) = Some k"
proof (rule index_of_SomeI)
  have b: "k + length p \<le> length x" using a by (rule index_of_bound)
  show "k \<le> length (take m x)" using m b by simp
  show "starts_with eq p (drop k (take m x))"
    using index_of_starts [OF a] m by (simp add: drop_take starts_with_take)
  show "\<not> starts_with eq p (drop j (take m x))" if "j < k" for j
    using index_of_least [OF a that] m that by (simp add: drop_take starts_with_take)
qed

section \<open>The change decision engine\<close>

text \<open>
  Claim C1.  When the status and the cached status agree on title, artist, album,
  artwork and the now-playing flag, and the cache timestamp parses, \<open>shouldUpdate\<close> is
  false while the time elapsed since the timestamp is at most the configured TTL, and
  true once it exceeds the TTL.
\<close>

theorem C1_idempotence_with_expiry:
  assumes "CacheEntry.title c = TrackInfo.title track"
    and "CacheEntry.artist c = TrackInfo.artist track"
    and "CacheEntry.album c = TrackInfo.album track"
    and "CacheEntry.albumArt c = TrackInfo.albumArt track"
    and "CacheEntry.nowPlaying c = TrackInfo.nowPlaying track"
    and "Date_getTime rt (lastUpdatedIso c) = Some last_ms"
  shows "(now - last_ms \<le> cacheTtlMs config \<longrightarrow> \<not> shouldUpdate config rt now track (Some c))
       \<and> (cacheTtlMs config < now - last_ms \<longrightarrow> shouldUpdate config rt now track (Some c))"
  using assms by (simp add: shouldUpdate_def)

theorem C1_idempotence_with_expiry_witness:
  "\<not> shouldUpdate example_config example_runtime 601000 song_a
        (Some (cached_a ''1970-01-01T00:00:01.000Z''))
   \<and> shouldUpdate example_config example_runtime 601001 song_a
        (Some (cached_a ''1970-01-01T00:00:01.000Z''))"
proof -
  let ?c = "cached_a ''1970-01-01T00:00:01.000Z''"
  have f: "CacheEntry.title ?c = TrackInfo.title song_a"
    "CacheEntry.artist ?c = TrackInfo.artist song_a"
    "CacheEntry.album ?c = TrackInfo.album song_a"
    "CacheEntry.albumArt ?c = TrackInfo.albumArt song_a"
    "CacheEntry.nowPlaying ?c = TrackInfo.nowPlaying song_a"
    by (simp_all add: cached_a_def song_a_def)
  have p: "Date_getTime example_runtime (lastUpdatedIso ?c) = Some 1000"
    by (simp add: example_runtime_def cached_a_def)
  have t: "cacheTtlMs example_config = 600000"
    by (simp add: example_config_def)
  from C1_idempotence_with_expiry [OF f p, of 601000 example_config]
       C1_idempotence_with_expiry [OF f p, of 601001 example_config]
  show ?thesis by (simp add: t)
qed

text \<open>
  Claim C7.  \<open>shouldUpdate\<close> is true when there is no cached status; with a cached
  status it is true whenever one of the five compared fields differs, whatever the
  clock reads; and it is true whenever the cache timestamp does not parse.
\<close>

theorem C7_short_circuits:
  "shouldUpdate config rt now track None
   \<and> (CacheEntry.title c \<noteq> TrackInfo.title track
        \<or> CacheEntry.artist c \<noteq> TrackInfo.artist track
        \<or> CacheEntry.album c \<noteq> TrackInfo.album track
        \<or> CacheEntry.albumArt c \<noteq> TrackInfo.albumArt track
        \<or> CacheEntry.nowPlaying c \<noteq> TrackInfo.nowPlaying track
       \<longrightarrow> shouldUpdate config rt now track (Some c))
   \<and> (Date_getTime rt (lastUpdatedIso c) = None \<longrightarrow> shouldUpdate config rt now track (Some c))"
  by (simp add: shouldUpdate_def)

theorem C7_short_circuits_witness:
  "shouldUpdate example_config example_runtime 0 song_a None
   \<and> CacheEntry.nowPlaying ((cached_a ''1970-01-01T00:00:01.000Z'') \<lparr> CacheEntry.nowPlaying := False \<rparr>)
        \<noteq> TrackInfo.nowPlaying song_a
   \<and> shouldUpdate example_config example_runtime 1000 song_a
        (Some ((cached_a ''1970-01-01T00:00:01.000Z'') \<lparr> CacheEntry.nowPlaying := False \<rparr>))
   \<and> Date_getTime example_runtime (lastUpdatedIso (cached_a ''yesterday'')) = None
   \<and> shouldUpdate example_config example_runtime 1000 song_a (Some (cached_a ''yesterday''))"
proof -
  have d: "CacheEntry.nowPlaying ((cached_a ''1970-01-01T00:00:01.000Z'') \<lparr> CacheEntry.nowPlaying := False \<rparr>)
             \<noteq> TrackInfo.nowPlaying song_a"
    by (simp add: cached_a_def song_a_def)
  have u: "Date_getTime example_runtime (lastUpdatedIso (cached_a ''yesterday'')) = None"
    by (simp add: example_runtime_def cached_a_def)
  from C7_short_circuits [of example_config example_runtime 0 song_a]
       C7_short_circuits [of example_config example_runtime 1000 song_a
         "(cached_a ''1970-01-01T00:00:01.000Z'') \<lparr> CacheEntry.nowPlaying := False \<rparr>"]
       C7_short_circuits [of example_config example_runtime 1000 song_a "cached_a ''yesterday''"]
       d u
  show ?thesis by blast
qed

section \<open>The snippet renderer\<close>

text \<open>\<open>decimal\<close> writes base-10 digits, and reading them back gives the number.\<close>

lemma digit_val_digit_char: "digit_val (digit_char n) = n mod 10"
proof -
  have "m < 10 \<Longrightarrow> digit_val (''0123456789'' ! m) = m" for m
  proof -
    assume m: "m < 10"
    have "list_all (\<lambda>m. digit_val (''0123456789'' ! m) = m) [0..<10]" by code_simp
    with m show ?thesis by (simp add: list_all_iff)
  qed
  then show ?thesis by (simp add: digit_char_def)
qed

lemma is_digit_digit_char: "is_digit (digit_char n)"
proof -
  have "n mod 10 < length ''0123456789''" by simp
  then have "''0123456789'' ! (n mod 10) \<in> set ''0123456789''" by (rule nth_mem)
  then show ?thesis by (simp only: is_digit_def digit_char_def)
qed

lemma read_decimal_decimal: "read_decimal (decimal n) = n"
proof (induction n rule: decimal.induct)
  case (1 n)
  show ?case
  proof (cases "n < 10")
    case True
    then show ?thesis
      by (simp add: decimal.simps [of n] read_decimal_def digit_val_digit_char)
  next
    case False
    with 1 have "read_decimal (decimal (n div 10)) = n div 10" by simp
    with False show ?thesis
      by (simp add: decimal.simps [of n] read_decimal_def digit_val_digit_char)
  qed
qed

lemma decimal_digits: "\<forall>c\<in>set (decimal n). is_digit c"
proof (induction n rule: decimal.induct)
  case (1 n)
  then show ?case
    by (cases "n < 10") (simp_all add: decimal.simps [of n] is_digit_digit_char)
qed

text \<open>
  Below the first tier nothing is printed through \<open>String_of_int\<close>; from one minute on, the
  count that is printed is a natural number below \<open>10^21\<close> whenever the elapsed time is a safe
  integer, so that it is printed in plain decimal digits.
\<close>

lemma getTimeAgo_count_range:
  assumes "safe_integer (now - timestamp)" and "60000 \<le> now - timestamp"
    and "k = 60 \<or> k = 3600 \<or> k = 86400"
  shows "0 \<le> ((now - timestamp) div 1000) div k"
    and "((now - timestamp) div 1000) div k < 10 ^ 21"
proof -
  from assms(1) have u: "now - timestamp \<le> 2 ^ 53 - 1" by (simp add: safe_integer_def)
  from assms(2,3) show "0 \<le> ((now - timestamp) div 1000) div k" by auto
  from assms(2,3) have "((now - timestamp) div 1000) div k \<le> now - timestamp" by auto
  with u show "((now - timestamp) div 1000) div k < 10 ^ 21" by simp
qed

text \<open>
  Claim C8.  For a clock reading \<open>now\<close> and a played-at timestamp that are integral
  millisecond counts within the safe integers, with their difference a safe integer too
  (the range on which the double arithmetic of the source is exact), and with the elapsed
  time \<open>now - timestamp\<close> in milliseconds: the time label is \<open>just now\<close> under 60 seconds,
  \<open>N minutes ago\<close> with \<open>N\<close> the floor of the elapsed seconds over 60 under one hour,
  \<open>N hours ago\<close> (over 3600) under 24 hours, and \<open>N days ago\<close> (over 86400) from there on;
  nothing is pluralised, so one minute prints as \<open>1 minutes ago\<close>.
\<close>

theorem C8_time_label_tiers:
  assumes "safe_integer now" and "safe_integer timestamp"
    and "safe_integer (now - timestamp)"
  shows "(now - timestamp < 60000 \<longrightarrow> getTimeAgo now timestamp = ''just now'')
   \<and> (60000 \<le> now - timestamp \<and> now - timestamp < 3600000 \<longrightarrow>
        getTimeAgo now timestamp
          = String_of_int (((now - timestamp) div 1000) div 60) @ '' minutes ago'')
   \<and> (3600000 \<le> now - timestamp \<and> now - timestamp < 86400000 \<longrightarrow>
        getTimeAgo now timestamp
          = String_of_int (((now - timestamp) div 1000) div 3600) @ '' hours ago'')
   \<and> (86400000 \<le> now - timestamp \<longrightarrow>
        getTimeAgo now timestamp
          = String_of_int (((now - timestamp) div 1000) div 86400) @ '' days ago'')
   \<and> (60000 \<le> now - timestamp \<and> now - timestamp < 120000 \<longrightarrow>
        getTimeAgo now timestamp = ''1 minutes ago'')"
proof -
  have one: "String_of_int 1 = ''1''"
    by (simp add: String_of_int_def decimal.simps digit_char_def)
  have m: "60000 \<le> now - timestamp \<Longrightarrow> now - timestamp < 120000
             \<Longrightarrow> ((now - timestamp) div 1000) div 60 = 1"
    by (simp add: div_mult2_eq [symmetric])
  show ?thesis
    unfolding getTimeAgo_def Let_def
    using m one by auto
qed

theorem C8_time_label_tiers_witness:
  "safe_integer 59999 \<and> safe_integer 3599999 \<and> safe_integer 86399999
   \<and> safe_integer 1036800000 \<and> safe_integer 60000 \<and> safe_integer 0
   \<and> getTimeAgo 59999 0 = ''just now''
   \<and> getTimeAgo 3599999 0 = ''59 minutes ago''
   \<and> getTimeAgo 86399999 0 = ''23 hours ago''
   \<and> getTimeAgo 1036800000 0 = ''12 days ago''
   \<and> getTimeAgo 60000 0 = ''1 minutes ago''"
proof -
  have r: "safe_integer 59999" "safe_integer 3599999" "safe_integer 86399999"
    "safe_integer 1036800000" "safe_integer 60000" "safe_integer 0"
    by (simp_all add: safe_integer_def)
  have d: "safe_integer (59999 - 0)" "safe_integer (3599999 - 0)" "safe_integer (86399999 - 0)"
    "safe_integer (1036800000 - 0)" "safe_integer (60000 - 0)"
    by (simp_all add: safe_integer_def)
  have s: "String_of_int 59 = ''59''" "String_of_int 23 = ''23''" "String_of_int 12 = ''12''"
    "String_of_int 1 = ''1''"
    by (simp_all add: String_of_int_def decimal.simps digit_char_def)
  from C8_time_label_tiers [OF r(1) r(6) d(1)] C8_time_label_tiers [OF r(2) r(6) d(2)]
       C8_time_label_tiers [OF r(3) r(6) d(3)] C8_time_label_tiers [OF r(4) r(6) d(4)]
       C8_time_label_tiers [OF r(5) r(6) d(5)] r
  show ?thesis by (simp add: s)
qed

text \<open>The two branches of \<open>formatTrack\<close>, written out.\<close>

lemma formatTrack_text_only:
  "\<not> truthy (TrackInfo.albumArt track) \<Longrightarrow>
     formatTrack now track
       = ''<samp><strong>'' @ TrackInfo.title track @ ''</strong><br/>by ''
           @ TrackInfo.artist track @ ''</samp>''"
  by (simp add: formatTrack_def)

lemma formatTrack_artwork:
  \<open>truthy (TrackInfo.albumArt track) \<Longrightarrow>
     formatTrack now track
       = ''<img src="'' @ the (TrackInfo.albumArt track)
           @ ''" alt="" width="128" height="128" align="left" /><samp>''
           @ ''<strong>'' @ TrackInfo.title track @ ''</strong>''
           @ ''<br/>'' @ ''by '' @ TrackInfo.artist track
           @ (if truthy (TrackInfo.album track)
              then ''<br/>'' @ ''from '' @ the (TrackInfo.album track) else [])
           @ ''<br/>'' @ ''<br/>''
           @ (if TrackInfo.nowPlaying track then ''<em>now playing</em>''
              else getTimeAgo now (playedAt track))
           @ ''</samp>''\<close>
  by (simp add: formatTrack_def Let_def)

text \<open>
  Claim C4 says that every status with the now-playing flag set renders with the
  now-playing marker, artwork or not.  A now-playing status without artwork renders
  as title and artist only: the marker is not in the markup.
\<close>

theorem C4_counterexample:
  "TrackInfo.nowPlaying live_without_art
   \<and> \<not> includes_js (formatTrack 0 live_without_art) ''now playing''"
  by code_simp

text \<open>
  Claim C4, amended.  For every status with the now-playing flag set and a non-empty
  artwork URL, the markup ends with the fixed now-playing marker where the time label
  would stand, and it is the same markup whatever the clock reads.  With the flag set
  and no artwork URL, or an empty one, the markup is the title and the artist only.
\<close>

theorem C4_now_playing_marker:
  assumes "TrackInfo.nowPlaying track"
  shows \<open>(truthy (TrackInfo.albumArt track) \<longrightarrow>
            formatTrack now track
              = ''<img src="'' @ the (TrackInfo.albumArt track)
                  @ ''" alt="" width="128" height="128" align="left" /><samp>''
                  @ ''<strong>'' @ TrackInfo.title track @ ''</strong>''
                  @ ''<br/>'' @ ''by '' @ TrackInfo.artist track
                  @ (if truthy (TrackInfo.album track)
                     then ''<br/>'' @ ''from '' @ the (TrackInfo.album track) else [])
                  @ ''<br/>'' @ ''<br/>'' @ ''<em>now playing</em>'' @ ''</samp>''
            \<and> includes_js (formatTrack now track) ''<em>now playing</em>''
            \<and> formatTrack now' track = formatTrack now track)
         \<and> (\<not> truthy (TrackInfo.albumArt track) \<longrightarrow>
            formatTrack now track
              = ''<samp><strong>'' @ TrackInfo.title track @ ''</strong><br/>by ''
                  @ TrackInfo.artist track @ ''</samp>'')\<close>
proof (intro conjI impI)
  let ?pre = \<open>''<img src="'' @ the (TrackInfo.albumArt track)
               @ ''" alt="" width="128" height="128" align="left" /><samp>''
               @ ''<strong>'' @ TrackInfo.title track @ ''</strong>''
               @ ''<br/>'' @ ''by '' @ TrackInfo.artist track
               @ (if truthy (TrackInfo.album track)
                  then ''<br/>'' @ ''from '' @ the (TrackInfo.album track) else [])
               @ ''<br/>'' @ ''<br/>''\<close>
  assume a: "truthy (TrackInfo.albumArt track)"
  have e: "formatTrack n track = ?pre @ ''<em>now playing</em>'' @ ''</samp>''" for n
    using assms a by (simp add: formatTrack_artwork)
  from e [of now]
  show \<open>formatTrack now track
          = ''<img src="'' @ the (TrackInfo.albumArt track)
              @ ''" alt="" width="128" height="128" align="left" /><samp>''
              @ ''<strong>'' @ TrackInfo.title track @ ''</strong>''
              @ ''<br/>'' @ ''by '' @ TrackInfo.artist track
              @ (if truthy (TrackInfo.album track)
                 then ''<br/>'' @ ''from '' @ the (TrackInfo.album track) else [])
              @ ''<br/>'' @ ''<br/>'' @ ''<em>now playing</em>'' @ ''</samp>''\<close>
    by simp
  have "includes_js (?pre @ ''<em>now playing</em>'' @ ''</samp>'') ''<em>now playing</em>''"
    by (rule includes_js_middle)
  with e [of now] show "includes_js (formatTrack now track) ''<em>now playing</em>''"
    by (simp only:)
  from e [of now] e [of now'] show "formatTrack now' track = formatTrack now track"
    by (simp only:)
next
  assume "\<not> truthy (TrackInfo.albumArt track)"
  then show "formatTrack now track
              = ''<samp><strong>'' @ TrackInfo.title track @ ''</strong><br/>by ''
                  @ TrackInfo.artist track @ ''</samp>''"
    by (rule formatTrack_text_only)
qed

theorem C4_now_playing_marker_witness:
  \<open>formatTrack 86400000 song_a
     = ''<img src="https://x/a.jpg" alt="" width="128" height="128" align="left" /><samp><strong>Song A</strong><br/>by Artist X<br/><br/><em>now playing</em></samp>''
   \<and> includes_js (formatTrack 86400000 song_a) ''<em>now playing</em>''
   \<and> formatTrack 86400000 live_without_art = ''<samp><strong>Song A</strong><br/>by Artist X</samp>''\<close>
proof -
  have h: "TrackInfo.nowPlaying song_a" "TrackInfo.nowPlaying live_without_art"
    by (simp_all add: song_a_def live_without_art_def)
  have t: "truthy (TrackInfo.albumArt song_a)" "\<not> truthy (TrackInfo.albumArt live_without_art)"
    by (simp_all add: song_a_def live_without_art_def truthy_def)
  note c = C4_now_playing_marker [OF h(1), of 86400000 0, THEN conjunct1, rule_format, OF t(1)]
  note d = C4_now_playing_marker [OF h(2), of 86400000 0, THEN conjunct2, rule_format, OF t(2)]
  have e: \<open>formatTrack 86400000 song_a
     = ''<img src="https://x/a.jpg" alt="" width="128" height="128" align="left" /><samp><strong>Song A</strong><br/>by Artist X<br/><br/><em>now playing</em></samp>''\<close>
    using c [THEN conjunct1] by (simp add: song_a_def truthy_def)
  have i: "includes_js (formatTrack 86400000 song_a) ''<em>now playing</em>''"
    using c [THEN conjunct2, THEN conjunct1] .
  have n: "formatTrack 86400000 live_without_art = ''<samp><strong>Song A</strong><br/>by Artist X</samp>''"
    using d by (simp add: live_without_art_def song_a_def)
  from e i n show ?thesis by (intro conjI)
qed

text \<open>
  Claim C9 says that a status whose artwork URL is present renders with the image
  element.  The provider sends its image entries with an empty URL for a track without
  artwork; the fetched status then has the empty string as artwork URL, which is
  present, and it takes the text-only branch.
\<close>

theorem C9_counterexample:
  "fetchRecentTrack example_runtime 0 artless_answer = Inr (Some artless_track)
   \<and> TrackInfo.albumArt artless_track = Some []
   \<and> formatTrack 0 artless_track = ''<samp><strong>Song A</strong><br/>by Artist X</samp>''
   \<and> \<not> includes_js (formatTrack 0 artless_track) ''<img''"
  by code_simp

text \<open>
  Claim C9, amended.  A status whose artwork URL is absent or empty renders as the
  text-only block with the title and the artist, without album and without time or
  now-playing line.  A status with a non-empty artwork URL renders as the image element
  of fixed dimensions, then title, artist, the album when it is present and non-empty,
  an empty line, and the now-playing marker or the time label.
\<close>

theorem C9_rendering_branches:
  \<open>(\<not> truthy (TrackInfo.albumArt track) \<longrightarrow>
      formatTrack now track
        = ''<samp><strong>'' @ TrackInfo.title track @ ''</strong><br/>by ''
            @ TrackInfo.artist track @ ''</samp>'')
   \<and> (truthy (TrackInfo.albumArt track) \<longrightarrow>
      formatTrack now track
        = ''<img src="'' @ the (TrackInfo.albumArt track)
            @ ''" alt="" width="128" height="128" align="left" /><samp>''
            @ ''<strong>'' @ TrackInfo.title track @ ''</strong>''
            @ ''<br/>'' @ ''by '' @ TrackInfo.artist track
            @ (if truthy (TrackInfo.album track)
               then ''<br/>'' @ ''from '' @ the (TrackInfo.album track) else [])
            @ ''<br/>'' @ ''<br/>''
            @ (if TrackInfo.nowPlaying track then ''<em>now playing</em>''
               else getTimeAgo now (playedAt track))
            @ ''</samp>'')\<close>
  using formatTrack_text_only [of track now] formatTrack_artwork [of track now] by blast

theorem C9_rendering_branches_witness:
  \<open>\<not> truthy (TrackInfo.albumArt live_without_art)
   \<and> formatTrack 7200000 live_without_art = ''<samp><strong>Song A</strong><br/>by Artist X</samp>''
   \<and> truthy (TrackInfo.albumArt with_album)
   \<and> formatTrack 7200000 with_album
       = ''<img src="https://x/a.jpg" alt="" width="128" height="128" align="left" /><samp><strong>Song A</strong><br/>by Artist X<br/>from Album Z<br/><br/>2 hours ago</samp>''\<close>
proof -
  have a: "\<not> truthy (TrackInfo.albumArt live_without_art)"
    and b: "truthy (TrackInfo.albumArt with_album)"
    by (simp_all add: live_without_art_def with_album_def song_a_def truthy_def)
  have t: "getTimeAgo 7200000 0 = ''2 hours ago''"
    by (simp add: getTimeAgo_def String_of_int_def decimal.simps digit_char_def)
  from C9_rendering_branches [of live_without_art 7200000]
       C9_rendering_branches [of with_album 7200000] a b
  show ?thesis
    by (simp add: live_without_art_def with_album_def song_a_def truthy_def t)
qed

lemma getTimeAgo_just_now: "now - timestamp < 60000 \<Longrightarrow> getTimeAgo now timestamp = ''just now''"
  by (auto simp: getTimeAgo_def Let_def)

section \<open>The status fetch\<close>

lemma fetch_undated: "fetchRecentTrack example_runtime t undated_answer = Inr (Some (undated_track t))"
  by (simp add: fetchRecentTrack_def undated_answer_def undated_track_def truthy_def or_js_def
        find_image_def nullish_def)

text \<open>
  Claim C10 says that a track without a played-at timestamp, rendered as not live, has
  the time label \<open>just now\<close>.  The timestamp is the clock reading of the fetch, and the
  label is computed against a second clock reading at rendering, after the cache has
  been read and the document fetched: when that takes 60 seconds, the label is
  \<open>1 minutes ago\<close>, and that is what the cycle writes to the document.
\<close>

theorem C10_counterexample:
  \<open>fetchRecentTrack example_runtime 0 undated_answer = Inr (Some (undated_track 0))
   \<and> \<not> TrackInfo.nowPlaying (undated_track 0)
   \<and> getTimeAgo 60000 (playedAt (undated_track 0)) = ''1 minutes ago''
   \<and> sent (snd (tick example_config example_runtime slow_cycle first_run))
       = [LastFmGet, GithubGet,
          GithubPut
            \<lparr> message = ''docs(readme): music -> Song A by Artist X'',
              PutBody.content = ''<span data-music><img src="https://x/a.jpg" alt="" width="128" height="128" align="left" /><samp><strong>Song A</strong><br/>by Artist X<br/><br/>1 minutes ago</samp></span>'',
              PutBody.sha = ''abc'', branch = ''main'' \<rparr>]\<close>
  by code_simp

text \<open>
  Claim C10, amended.  When the most recent track has no played-at timestamp, the
  fetched status's \<open>playedAt\<close> is the clock reading of the fetch; its time label is
  \<open>just now\<close> at every rendering whose clock reading is less than 60 seconds after
  that, and a not-live status with artwork then shows that label.
\<close>

theorem C10_undated_track:
  assumes "ok response" and "json response = Some (recent # others)"
    and "\<not> truthy (date_uts recent)"
  shows "\<exists>track. fetchRecentTrack rt now response = Inr (Some track)
           \<and> playedAt track = now
           \<and> (\<forall>later. later - now < 60000 \<longrightarrow>
                 getTimeAgo later (playedAt track) = ''just now''
                 \<and> (\<not> TrackInfo.nowPlaying track \<and> truthy (TrackInfo.albumArt track) \<longrightarrow>
                      includes_js (formatTrack later track) ''<br/><br/>just now</samp>''))"
proof -
  from assms obtain track where
    f: "fetchRecentTrack rt now response = Inr (Some track)" and p: "playedAt track = now"
    by (simp add: fetchRecentTrack_def Let_def)
  have "getTimeAgo later (playedAt track) = ''just now''
          \<and> (\<not> TrackInfo.nowPlaying track \<and> truthy (TrackInfo.albumArt track) \<longrightarrow>
               includes_js (formatTrack later track) ''<br/><br/>just now</samp>'')"
    if l: "later - now < 60000" for later
  proof -
    have g: "getTimeAgo later (playedAt track) = ''just now''"
      using l p by (simp add: getTimeAgo_just_now)
    have "includes_js (formatTrack later track) ''<br/><br/>just now</samp>''"
      if "\<not> TrackInfo.nowPlaying track" "truthy (TrackInfo.albumArt track)"
    proof -
      let ?a = \<open>''<img src="'' @ the (TrackInfo.albumArt track)
           @ ''" alt="" width="128" height="128" align="left" /><samp>''
           @ ''<strong>'' @ TrackInfo.title track @ ''</strong>''
           @ ''<br/>'' @ ''by '' @ TrackInfo.artist track
           @ (if truthy (TrackInfo.album track)
              then ''<br/>'' @ ''from '' @ the (TrackInfo.album track) else [])\<close>
      have "formatTrack later track = ?a @ ''<br/><br/>just now</samp>'' @ []"
        using that g by (simp add: formatTrack_artwork)
      then show ?thesis by (simp only: includes_js_middle)
    qed
    with g show ?thesis by blast
  qed
  with f p show ?thesis by blast
qed

theorem C10_undated_track_witness:
  "fetchRecentTrack example_runtime 5000 undated_answer = Inr (Some (undated_track 5000))
   \<and> getTimeAgo 64999 (playedAt (undated_track 5000)) = ''just now''
   \<and> includes_js (formatTrack 64999 (undated_track 5000)) ''<br/><br/>just now</samp>''"
proof -
  have h: "ok undated_answer" "json undated_answer = Some (hd (the (json undated_answer)) # [])"
    "\<not> truthy (date_uts (hd (the (json undated_answer))))"
    by (simp_all add: undated_answer_def truthy_def)
  from C10_undated_track [OF h, of example_runtime 5000] obtain track where
    t: "fetchRecentTrack example_runtime 5000 undated_answer = Inr (Some track)"
    and l: "\<forall>later. later - 5000 < 60000 \<longrightarrow>
                 getTimeAgo later (playedAt track) = ''just now''
                 \<and> (\<not> TrackInfo.nowPlaying track \<and> truthy (TrackInfo.albumArt track) \<longrightarrow>
                      includes_js (formatTrack later track) ''<br/><br/>just now</samp>'')"
    by blast
  from t have e: "track = undated_track 5000" by (simp add: fetch_undated)
  have n: "\<not> TrackInfo.nowPlaying (undated_track 5000)" "truthy (TrackInfo.albumArt (undated_track 5000))"
    by (simp_all add: undated_track_def truthy_def)
  from l [rule_format, of 64999] e n fetch_undated [of 5000] show ?thesis by simp
qed

section \<open>The document patcher\<close>

text \<open>Templates without a dollar sign expand to themselves; the template of the tagged
  branch expands to the two groups around the content.\<close>

lemma GetSubstitution_plain_prefix:
  "CHR ''$'' \<notin> set F \<Longrightarrow>
     GetSubstitution m b a caps (F @ t) = F @ GetSubstitution m b a caps t"
proof (induction F)
  case Nil
  show ?case by simp
next
  case (Cons c F)
  then have c: "c \<noteq> CHR ''$''" and IH: "GetSubstitution m b a caps (F @ t) = F @ GetSubstitution m b a caps t"
    by auto
  show ?case
  proof (cases "F @ t")
    case Nil
    then show ?thesis by simp
  next
    case (Cons d rest)
    with c IH show ?thesis by simp
  qed
qed

lemma GetSubstitution_plain: "CHR ''$'' \<notin> set F \<Longrightarrow> GetSubstitution m b a caps F = F"
  using GetSubstitution_plain_prefix [of F m b a caps "[]"] by simp

lemma digit_val_1: "digit_val (CHR ''1'') = 1" "digit_val (CHR ''2'') = 2"
  by (simp_all add: digit_val_def)

lemma is_digit_12: "is_digit (CHR ''1'')" "is_digit (CHR ''2'')"
  by (simp_all add: is_digit_def)

lemma GetSubstitution_group2: "GetSubstitution m b a [g1, g2] ''$2'' = g2"
  by (simp add: digit_val_1 is_digit_12)

lemma GetSubstitution_groups:
  assumes "CHR ''$'' \<notin> set F"
  shows "GetSubstitution m b a [g1, g2] (''$1'' @ F @ ''$2'') = g1 @ F @ g2"
proof -
  obtain e rest where r: "F @ ''$2'' = e # rest"
    by (cases "F @ ''$2''") auto
  have "GetSubstitution m b a [g1, g2] (CHR ''$'' # CHR ''1'' # e # rest)
          = g1 @ GetSubstitution m b a [g1, g2] (e # rest)"
    by (simp add: digit_val_1 is_digit_12)
  with r have "GetSubstitution m b a [g1, g2] (''$1'' @ F @ ''$2'')
          = g1 @ GetSubstitution m b a [g1, g2] (F @ ''$2'')"
    by simp
  also have "GetSubstitution m b a [g1, g2] (F @ ''$2'') = F @ g2"
    using GetSubstitution_plain_prefix [OF assms, of m b a "[g1, g2]" "''$2''"]
    by (simp only: GetSubstitution_group2)
  finally show ?thesis .
qed

text \<open>
  The backtracking matcher and the matcher without backtracking agree.  The lemmas follow
  the pattern from right to left.
\<close>

text \<open>The first of the alternatives, tried in order.\<close>

lemma first_append: "first (xs @ ys) = (case first xs of Some r \<Rightarrow> Some r | None \<Rightarrow> first ys)"
  by (cases xs) (simp_all add: first_def)

lemma first_Nil: "first [] = None"
  by (simp add: first_def)

lemma bind_append: "(xs @ ys) \<bind> f = (xs \<bind> f) @ (ys \<bind> f)"
  by (induction xs) simp_all

lemma to_lower_range: "to_lower c = c \<or> to_lower c \<in> set ''abcdefghijklmnopqrstuvwxyz''"
proof (cases "map_of (zip ''ABCDEFGHIJKLMNOPQRSTUVWXYZ'' ''abcdefghijklmnopqrstuvwxyz'') c")
  case None
  then show ?thesis by (simp only: to_lower_def option.case simp_thms)
next
  case (Some l)
  then have "(c, l) \<in> set (zip ''ABCDEFGHIJKLMNOPQRSTUVWXYZ'' ''abcdefghijklmnopqrstuvwxyz'')"
    by (rule map_of_SomeD)
  then have "l \<in> set ''abcdefghijklmnopqrstuvwxyz''" by (rule set_zip_rightD)
  with Some show ?thesis by (simp only: to_lower_def option.case simp_thms)
qed

lemma ci_gt: "ci (CHR ''>'') c \<longleftrightarrow> c = CHR ''>''"
proof -
  have g: "to_lower (CHR ''>'') = CHR ''>''" by (simp add: to_lower_def)
  have n: "CHR ''>'' \<notin> set ''abcdefghijklmnopqrstuvwxyz''" by simp
  show ?thesis
  proof
    assume "ci (CHR ''>'') c"
    then have "to_lower c = CHR ''>''" by (simp add: ci_def g)
    with to_lower_range [of c] n show "c = CHR ''>''" by metis
  next
    assume "c = CHR ''>''"
    then show "ci (CHR ''>'') c" by (simp add: ci_def)
  qed
qed

lemma lit_gt: "lit ''>'' (c # cs) = (if c = CHR ''>'' then [cs] else [])" "lit ''>'' [] = []"
  by (simp_all add: lit_def ci_gt)

lemma starts_with_gt: "starts_with exact ''>'' (c # cs) \<longleftrightarrow> c = CHR ''>''"
  by (auto simp: exact_def)

text \<open>The lazy run followed by a literal stops at the first occurrence of the literal.\<close>

lemma lazy_then_lit:
  "first (lazy_star s \<bind> (\<lambda>s6. lit p s6 \<bind> (\<lambda>s7. [f s6])))
     = map_option (\<lambda>j. f (drop j s)) (index_of ci p s)"
proof (induction s)
  case Nil
  show ?case by (cases p) (simp_all add: lit_def first_def)
next
  case (Cons c cs)
  have "first (lazy_star (c # cs) \<bind> (\<lambda>s6. lit p s6 \<bind> (\<lambda>s7. [f s6])))
          = (if starts_with ci p (c # cs) then Some (f (c # cs))
             else first (lazy_star cs \<bind> (\<lambda>s6. lit p s6 \<bind> (\<lambda>s7. [f s6]))))"
    by (simp add: lit_def first_def)
  also have "\<dots> = map_option (\<lambda>j. f (drop j (c # cs))) (index_of ci p (c # cs))"
    by (simp add: Cons.IH option.map_comp comp_def)
  finally show ?case .
qed

text \<open>A greedy run of \<open>[^>]\<close> followed by \<open>>\<close> stops at the first \<open>>\<close>.\<close>

lemma greedy_then_gt:
  "greedy_star not_gt s \<bind> (\<lambda>s4. lit ''>'' s4 \<bind> K)
     = (case index_of exact ''>'' s of None \<Rightarrow> [] | Some k \<Rightarrow> K (drop (k + 1) s))"
proof (induction s)
  case Nil
  show ?case by (simp add: lit_gt)
next
  case (Cons c cs)
  show ?case
  proof (cases "c = CHR ''>''")
    case True
    then show ?thesis by (simp add: lit_gt not_gt_def exact_def)
  next
    case False
    then have "greedy_star not_gt (c # cs) \<bind> (\<lambda>s4. lit ''>'' s4 \<bind> K)
                 = greedy_star not_gt cs \<bind> (\<lambda>s4. lit ''>'' s4 \<bind> K)"
      by (simp add: lit_gt not_gt_def bind_append)
    with False show ?thesis
      by (simp add: Cons.IH exact_def split: option.splits)
  qed
qed

text \<open>
  A literal without \<open>>\<close> that matches at the start of \<open>s\<close> lies before the first
  \<open>>\<close> of \<open>s\<close>.
\<close>

lemma index_of_gt_after_lit:
  "starts_with ci p s \<Longrightarrow> \<forall>c\<in>set p. \<not> ci c (CHR ''>'') \<Longrightarrow>
     index_of exact ''>'' s
       = map_option (\<lambda>k. k + length p) (index_of exact ''>'' (drop (length p) s))"
proof (induction ci p s rule: starts_with.induct)
  case (1 s)
  show ?case by (simp add: option.map_ident)
next
  case (2 p ps)
  then show ?case by simp
next
  case (3 p ps c cs)
  from "3.prems" have "c \<noteq> CHR ''>''" by auto
  then have "index_of exact ''>'' (c # cs) = map_option Suc (index_of exact ''>'' cs)"
    by (simp add: exact_def)
  with 3 show ?case by (simp add: option.map_comp comp_def)
qed

lemma greedy_then_lit:
  assumes p: "p \<noteq> []" "\<forall>c\<in>set p. \<not> ci c (CHR ''>'')"
  shows "first (greedy_star not_gt s \<bind> (\<lambda>s2. lit p s2 \<bind>
                  (\<lambda>s3. case index_of exact ''>'' s3 of
                          None \<Rightarrow> [] | Some k \<Rightarrow> K (drop (k + 1) s3))))
           = (case index_of exact ''>'' s of
                None \<Rightarrow> None
              | Some k \<Rightarrow> if includes_ci (take k s) p then first (K (drop (k + 1) s)) else None)"
proof (induction s)
  case Nil
  from p(1) show ?case by (cases p) (simp_all add: lit_def first_def)
next
  case (Cons c cs)
  let ?K2 = "\<lambda>s3. case index_of exact ''>'' s3 of None \<Rightarrow> [] | Some k \<Rightarrow> K (drop (k + 1) s3)"
  let ?g = "\<lambda>s2. lit p s2 \<bind> ?K2"
  have g: "first (?g (c # cs))
             = (if starts_with ci p (c # cs)
                then (case index_of exact ''>'' (c # cs) of
                        None \<Rightarrow> None | Some k \<Rightarrow> first (K (drop (k + 1) (c # cs))))
                else None)"
  proof (cases "starts_with ci p (c # cs)")
    case False
    then show ?thesis by (simp add: lit_def first_def)
  next
    case True
    from index_of_gt_after_lit [OF True p(2)]
    have "?K2 (drop (length p) (c # cs))
            = (case index_of exact ''>'' (c # cs) of
                 None \<Rightarrow> [] | Some k \<Rightarrow> K (drop (k + 1) (c # cs)))"
      by (cases "index_of exact ''>'' (drop (length p) (c # cs))") (simp_all add: add.commute)
    with True show ?thesis
      by (simp add: lit_def first_Nil split: option.splits)
  qed
  show ?case
  proof (cases "c = CHR ''>''")
    case True
    with p have "\<not> starts_with ci p (c # cs)" by (cases p) auto
    with g have g0: "first (?g (c # cs)) = None" by simp
    from True have "greedy_star not_gt (c # cs) = [c # cs]" by (simp add: not_gt_def)
    then have "first (greedy_star not_gt (c # cs) \<bind> ?g) = first (?g (c # cs))"
      by simp
    moreover from True have "index_of exact ''>'' (c # cs) = Some 0" by (simp add: exact_def)
    moreover from p(1) have "\<not> includes_ci (take 0 (c # cs)) p"
      by (simp add: includes_ci_def)
    ultimately show ?thesis using g0 by simp
  next
    case False
    then have i: "index_of exact ''>'' (c # cs) = map_option Suc (index_of exact ''>'' cs)"
      by (simp add: exact_def)
    from False have "first (greedy_star not_gt (c # cs) \<bind> ?g)
            = (case first (greedy_star not_gt cs \<bind> ?g) of
                 Some r \<Rightarrow> Some r | None \<Rightarrow> first (?g (c # cs)))"
      by (simp add: not_gt_def bind_append first_append)
    also have "\<dots> = (case index_of exact ''>'' (c # cs) of
                None \<Rightarrow> None
              | Some k \<Rightarrow> if includes_ci (take k (c # cs)) p
                          then first (K (drop (k + 1) (c # cs))) else None)"
    proof (cases "index_of exact ''>'' cs")
      case None
      with i show ?thesis by (simp add: Cons.IH g)
    next
      case (Some k)
      have s: "starts_with ci p (c # take k cs) = starts_with ci p (c # cs)"
      proof (cases "starts_with ci p (c # cs)")
        case True
        from index_of_gt_after_lit [OF True p(2)] i Some have "length p \<le> Suc k" by auto
        then show ?thesis using starts_with_take [of p "Suc k" ci "c # cs"] by simp
      next
        case False
        have "c # cs = (c # take k cs) @ drop k cs" by simp
        with False have "\<not> starts_with ci p (c # take k cs)"
          by (metis starts_with_appendI)
        with False show ?thesis by simp
      qed
      have "includes_ci (c # take k cs) p
              = (starts_with ci p (c # cs) \<or> includes_ci (take k cs) p)"
        by (simp add: includes_ci_def s)
      with i Some show ?thesis
        by (simp add: Cons.IH g split: option.splits)
    qed
    finally show ?thesis .
  qed
qed

lemma spanPattern_at_eq: "spanPattern_at s = match_at s"
proof (cases "starts_with ci ''<span'' s")
  case False
  then show ?thesis
    by (simp add: spanPattern_at_def spanPattern_matches_def lit_def first_def
          match_at_def match_open_def)
next
  case True
  let ?K5 = "\<lambda>s5. lazy_star s5 \<bind> (\<lambda>s6. lit ''</span>'' s6 \<bind>
                 (\<lambda>s7. [(length s - length s5, length s5 - length s6)]))"
  let ?K2 = "\<lambda>s3. case index_of exact ''>'' s3 of None \<Rightarrow> [] | Some k \<Rightarrow> ?K5 (drop (k + 1) s3)"
  have d: "''data-music'' \<noteq> []" "\<forall>c\<in>set ''data-music''. \<not> ci c (CHR ''>'')"
    by (simp_all add: ci_def to_lower_def)
  have K5: "first (?K5 s5) = map_option (\<lambda>j. (length s - length s5, j)) (index_of ci ''</span>'' s5)"
    for s5
  proof -
    have "first (?K5 s5)
            = map_option (\<lambda>j. (length s - length s5, length s5 - length (drop j s5)))
                (index_of ci ''</span>'' s5)"
      by (rule lazy_then_lit)
    also have "\<dots> = map_option (\<lambda>j. (length s - length s5, j)) (index_of ci ''</span>'' s5)"
    proof (cases "index_of ci ''</span>'' s5")
      case None
      then show ?thesis by simp
    next
      case (Some j)
      from index_of_bound [OF Some] have "j \<le> length s5" by simp
      with Some show ?thesis by simp
    qed
    finally show ?thesis .
  qed
  have "length ''<span'' = 5" by simp
  with True have l: "lit ''<span'' s = [drop 5 s]" by (simp only: lit_def if_True)
  have "spanPattern_matches s
        = greedy_star not_gt (drop 5 s) \<bind> (\<lambda>s2. lit ''data-music'' s2 \<bind> ?K2)"
    by (simp add: spanPattern_matches_def l greedy_then_gt)
  then have "spanPattern_at s
        = (case index_of exact ''>'' (drop 5 s) of
             None \<Rightarrow> None
           | Some k \<Rightarrow> if includes_ci (take k (drop 5 s)) ''data-music''
                       then first (?K5 (drop (k + 1) (drop 5 s))) else None)"
    unfolding spanPattern_at_def using greedy_then_lit [OF d, where K = ?K5 and s = "drop 5 s"] by simp
  also have "\<dots> = match_at s"
  proof (cases "index_of exact ''>'' (drop 5 s)")
    case None
    with True show ?thesis by (simp add: match_at_def match_open_def)
  next
    case (Some k)
    from index_of_bound [OF Some] have a: "length s - length (drop (5 + k + 1) s) = 5 + k + 1"
      by simp
    have b: "drop (k + 1) (drop 5 s) = drop (5 + k + 1) s"
      by (simp add: add.commute add.left_commute)
    have f: "first (?K5 (drop (k + 1) (drop 5 s)))
               = map_option (\<lambda>j. (5 + k + 1, j)) (index_of ci ''</span>'' (drop (5 + k + 1) s))"
      using K5 [of "drop (k + 1) (drop 5 s)"] by (simp only: b a)
    have m: "match_at s
               = (if includes_ci (take k (drop 5 s)) ''data-music''
                  then map_option (\<lambda>j. (5 + k + 1, j))
                         (index_of ci ''</span>'' (drop (5 + k + 1) s))
                  else None)"
      using True Some by (simp add: match_at_def match_open_def split: option.splits)
    show ?thesis by (simp only: Some option.case f m)
  qed
  finally show ?thesis .
qed

text \<open>The leftmost match is a match, and nothing to its left matches.\<close>

lemma spanPattern_exec_SomeD:
  "spanPattern_exec s = Some (i, n, j) \<Longrightarrow>
     i < length s \<and> match_at (drop i s) = Some (n, j) \<and> (\<forall>i'<i. match_at (drop i' s) = None)"
proof (induction s arbitrary: i)
  case Nil
  then show ?case by simp
next
  case (Cons c cs)
  show ?case
  proof (cases "match_at (c # cs)")
    case (Some m)
    with Cons.prems show ?thesis by (cases m) (auto simp: spanPattern_at_eq)
  next
    case None
    with Cons.prems obtain i0 where e: "spanPattern_exec cs = Some (i0, n, j)" and i: "i = Suc i0"
      by (auto simp: spanPattern_at_eq split: prod.splits)
    from Cons.IH [OF e] have IH: "i0 < length cs" "match_at (drop i0 cs) = Some (n, j)"
      "\<forall>i'<i0. match_at (drop i' cs) = None" by auto
    have "match_at (drop i' (c # cs)) = None" if "i' < i" for i'
      using that i None IH(3) by (cases i') auto
    with IH i show ?thesis by simp
  qed
qed

lemma match_at_Nil: "match_at [] = None"
  by (simp add: match_at_def match_open_def)

lemma spanPattern_exec_SomeI:
  "match_at (drop i s) = Some (n, j) \<Longrightarrow> (\<And>i'. i' < i \<Longrightarrow> match_at (drop i' s) = None)
     \<Longrightarrow> spanPattern_exec s = Some (i, n, j)"
proof (induction s arbitrary: i)
  case Nil
  then show ?case by (simp add: match_at_Nil)
next
  case (Cons c cs)
  show ?case
  proof (cases i)
    case 0
    with Cons.prems(1) show ?thesis by (simp add: spanPattern_at_eq)
  next
    case (Suc i0)
    from Cons.prems(2) [of 0] Suc have n: "match_at (c # cs) = None" by simp
    have "spanPattern_exec cs = Some (i0, n, j)"
    proof (rule Cons.IH)
      show "match_at (drop i0 cs) = Some (n, j)" using Cons.prems(1) Suc by simp
      show "match_at (drop i' cs) = None" if "i' < i0" for i'
        using Cons.prems(2) [of "Suc i'"] that Suc by simp
    qed
    with n Suc show ?thesis by (simp add: spanPattern_at_eq)
  qed
qed

text \<open>What a match of the opening tag consists of.\<close>

lemma match_open_SomeD:
  assumes "match_open s = Some n"
  obtains k where "n = k + 6" "starts_with ci ''<span'' s"
    "index_of exact ''>'' (drop 5 s) = Some k"
    "includes_ci (take k (drop 5 s)) ''data-music''" "n \<le> length s"
proof -
  from assms have s: "starts_with ci ''<span'' s"
    by (simp add: match_open_def split: if_splits)
  with assms obtain k where k: "index_of exact ''>'' (drop 5 s) = Some k"
    "includes_ci (take k (drop 5 s)) ''data-music''" "n = k + 6"
    by (auto simp: match_open_def split: option.splits if_splits)
  from index_of_bound [OF k(1)] have "k + 6 \<le> length s" by simp
  with s k that show thesis by simp
qed

text \<open>The opening tag is decided by the text up to the first \<open>>\<close> after \<open><span\<close>.\<close>

lemma match_open_append:
  assumes k: "index_of exact ''>'' (drop 5 u) = Some k"
  shows "match_open (u @ v) = match_open u"
proof -
  from index_of_bound [OF k] have l: "k + 6 \<le> length u" by simp
  then have d: "drop 5 (u @ v) = drop 5 u @ v" by simp
  have s: "starts_with ci ''<span'' (u @ v) = starts_with ci ''<span'' u"
    using l by (simp add: starts_with_append)
  have i: "index_of exact ''>'' (drop 5 u @ v) = Some k"
    using k by (rule index_of_append)
  have t: "take k (drop 5 u @ v) = take k (drop 5 u)"
    using l by simp
  show ?thesis
    by (simp only: match_open_def d s i k option.case t)
qed

lemma match_open_take:
  assumes "match_open s = Some n"
  shows "match_open (take n s @ v) = Some n"
proof -
  from assms obtain k where k: "n = k + 6" "index_of exact ''>'' (drop 5 s) = Some k"
    "n \<le> length s"
    by (rule match_open_SomeD)
  have "drop 5 (take n s) = take (k + 1) (drop 5 s)"
    using k(1) by (simp add: drop_take)
  moreover have "index_of exact ''>'' (take (k + 1) (drop 5 s)) = Some k"
    using k(2) by (rule index_of_take) simp
  ultimately have i: "index_of exact ''>'' (drop 5 (take n s)) = Some k" by simp
  have "match_open (take n s @ drop n s) = match_open (take n s)"
    using i by (rule match_open_append)
  with assms have "match_open (take n s) = Some n" by simp
  with match_open_append [OF i, of v] show ?thesis by simp
qed

text \<open>
  An occurrence of a pattern that starts inside \<open>X\<close> and ends in what follows would put
  a later character of the pattern on the first character after \<open>X\<close>.
\<close>

lemma starts_with_straddle:
  "starts_with eq p (X @ g # G) \<Longrightarrow> length X < length p \<Longrightarrow> eq (p ! length X) g"
proof (induction eq p X rule: starts_with.induct)
  case (1 eq s)
  then show ?case by simp
next
  case (2 eq p ps)
  then show ?case by simp
next
  case (3 eq p ps c cs)
  then show ?case by simp
qed

lemma no_straddle:
  assumes x: "X \<noteq> []" and n: "\<not> starts_with eq p X"
    and t: "\<forall>c\<in>set (tl p). \<not> eq c g"
  shows "\<not> starts_with eq p (X @ g # G)"
proof
  assume s: "starts_with eq p (X @ g # G)"
  show False
  proof (cases "length p \<le> length X")
    case True
    with s n show False by (simp add: starts_with_append)
  next
    case False
    then have l: "length X < length p" by simp
    from starts_with_straddle [OF s l] have e: "eq (p ! length X) g" .
    from x l have "p ! length X = tl p ! (length X - 1)" "length X - 1 < length (tl p)"
      by (cases X; simp add: nth_tl)+
    then have "p ! length X \<in> set (tl p)" by (metis nth_mem)
    with t e show False by blast
  qed
qed

lemma close_tag_no_straddle:
  assumes "X \<noteq> []" and "\<not> starts_with ci ''</span>'' X" and "starts_with ci ''</span>'' G"
  shows "\<not> starts_with ci ''</span>'' (X @ G)"
proof -
  from assms(3) obtain g G' where G: "G = g # G'" and g: "ci (CHR ''<'') g"
    by (cases G) auto
  have l: "to_lower (CHR ''<'') = CHR ''<''" "to_lower (CHR ''/'') = CHR ''/''"
    "to_lower (CHR ''s'') = CHR ''s''" "to_lower (CHR ''p'') = CHR ''p''"
    "to_lower (CHR ''a'') = CHR ''a''" "to_lower (CHR ''n'') = CHR ''n''"
    "to_lower (CHR ''>'') = CHR ''>''"
    by (simp_all add: to_lower_def)
  from g have "to_lower g = CHR ''<''" by (simp add: ci_def l)
  then have "\<forall>c\<in>set (tl ''</span>''). \<not> ci c g"
    by (simp add: ci_def l)
  with assms(1,2) show ?thesis unfolding G by (rule no_straddle)
qed

lemma index_of_close_tag:
  assumes n: "index_of ci ''</span>'' F = None" and g: "starts_with ci ''</span>'' G"
  shows "index_of ci ''</span>'' (F @ G) = Some (length F)"
proof (rule index_of_SomeI)
  show "starts_with ci ''</span>'' (drop (length F) (F @ G))" using g by simp
  show "length F \<le> length (F @ G)" by simp
  show "\<not> starts_with ci ''</span>'' (drop j (F @ G))" if "j < length F" for j
  proof -
    from that have "drop j F \<noteq> []" by simp
    moreover have "\<not> starts_with ci ''</span>'' (drop j F)"
      using index_of_None [OF n, of j] that by simp
    ultimately have "\<not> starts_with ci ''</span>'' (drop j F @ G)"
      using g by (rule close_tag_no_straddle)
    with that show ?thesis by simp
  qed
qed

text \<open>The parts of a document around its leftmost tagged region.\<close>

lemma spanPattern_exec_parts:
  assumes e: "spanPattern_exec doc = Some (i, n, j)"
  shows "match_open (drop i doc) = Some n"
    and "index_of ci ''</span>'' (drop (i + n) doc) = Some j"
    and "starts_with ci ''</span>'' (drop (i + n + j) doc)"
    and "i + n + j + 7 \<le> length doc"
    and "\<And>i'. i' < i \<Longrightarrow> match_at (drop i' doc) = None"
proof -
  from spanPattern_exec_SomeD [OF e] have l: "i < length doc"
    and m: "match_at (drop i doc) = Some (n, j)"
    and b: "\<forall>i'<i. match_at (drop i' doc) = None" by auto
  from m show o: "match_open (drop i doc) = Some n"
    by (auto simp: match_at_def split: option.splits)
  with m have "index_of ci ''</span>'' (drop n (drop i doc)) = Some j"
    by (auto simp: match_at_def split: option.splits)
  then show x: "index_of ci ''</span>'' (drop (i + n) doc) = Some j"
    by (simp add: add.commute)
  from index_of_starts [OF x] show "starts_with ci ''</span>'' (drop (i + n + j) doc)"
    by (simp add: add.commute add.left_commute)
  from index_of_bound [OF x] l show "i + n + j + 7 \<le> length doc" by simp
  from b show "\<And>i'. i' < i \<Longrightarrow> match_at (drop i' doc) = None" by blast
qed

lemma replace_spanPattern_frame:
  assumes e: "spanPattern_exec doc = Some (i, n, j)" and d: "CHR ''$'' \<notin> set F"
  shows "replace_spanPattern doc (''$1'' @ F @ ''$2'')
           = take i doc @ take n (drop i doc) @ F
               @ take 7 (drop (i + n + j) doc) @ drop (i + n + j + 7) doc"
  by (simp only: replace_spanPattern_def e option.case prod.case Let_def
        GetSubstitution_groups [OF d] append_assoc)

lemma spanPattern_exec_patched:
  assumes e: "spanPattern_exec doc = Some (i, n, j)"
    and c: "\<not> includes_ci F ''</span>''"
  shows "spanPattern_exec (take i doc @ take n (drop i doc) @ F
               @ take 7 (drop (i + n + j) doc) @ drop (i + n + j + 7) doc)
           = Some (i, n, length F)"
proof -
  let ?pre = "take i doc" and ?s = "drop i doc"
  let ?g1 = "take n ?s"
  let ?rest = "drop (i + n + j) doc"
  let ?G = "take 7 ?rest @ drop (i + n + j + 7) doc"
  let ?doc' = "?pre @ ?g1 @ F @ ?G"
  note p = spanPattern_exec_parts [OF e]
  from p(4) have li: "length ?pre = i" and ln: "length ?g1 = n" by simp_all
  have G: "?G = ?rest"
    by (metis append_take_drop_id drop_drop add.commute)
  have cF: "index_of ci ''</span>'' F = None"
    using c by (simp add: includes_ci_def)
  have close: "index_of ci ''</span>'' (F @ ?G) = Some (length F)"
    using cF p(3) unfolding G by (rule index_of_close_tag)
  show ?thesis
  proof (rule spanPattern_exec_SomeI)
    have "drop i ?doc' = ?g1 @ F @ ?G" using li by simp
    moreover have "match_open (?g1 @ F @ ?G) = Some n"
      using p(1) by (rule match_open_take)
    moreover have "drop n (?g1 @ F @ ?G) = F @ ?G" using ln by simp
    ultimately show "match_at (drop i ?doc') = Some (n, length F)"
      using close by (simp only: match_at_def option.case)
  next
    fix i' assume i': "i' < i"
    let ?u = "drop i' (?pre @ ?g1)"
    let ?v = "drop (i + n) doc"
    have doc: "doc = (?pre @ ?g1) @ ?v"
      by (metis append_take_drop_id take_add)
    have lu: "length ?u = i - i' + n" using li ln i' by simp
    have d1: "drop i' doc = ?u @ ?v"
    proof -
      have "drop i' ((?pre @ ?g1) @ ?v) = ?u @ ?v" using li i' by simp
      with doc show ?thesis by simp
    qed
    have d2: "drop i' ?doc' = ?u @ (F @ ?G)" using li i' by simp
    from p(1) obtain k where k: "n = k + 6" "index_of exact ''>'' (drop 5 ?s) = Some k"
      by (rule match_open_SomeD)
    have "starts_with exact ''>'' (drop (i - i' + k) (drop 5 ?u))"
    proof -
      have a: "i - i' + k + (5 + i') = i + (k + 5)" using i' by simp
      have "drop (i - i' + k) (drop 5 ?u) = drop (i + (k + 5)) (?pre @ ?g1)"
        by (simp only: drop_drop a)
      also have "\<dots> = drop (k + 5) ?g1"
        using li by simp
      also have "\<dots> = take 1 (drop k (drop 5 ?s))"
        using k(1) by (simp add: drop_take ac_simps)
      finally show ?thesis
        using index_of_starts [OF k(2)] by (simp add: starts_with_take)
    qed
    moreover have "i - i' + k \<le> length (drop 5 ?u)"
    proof -
      have "length (drop 5 ?u) = length ?u - 5" by (simp only: length_drop)
      with lu k(1) show ?thesis by linarith
    qed
    ultimately have "index_of exact ''>'' (drop 5 ?u) \<noteq> None"
      by (rule index_of_found)
    then obtain k' where k': "index_of exact ''>'' (drop 5 ?u) = Some k'" by blast
    have m1: "match_open (drop i' doc) = match_open ?u"
      unfolding d1 using k' by (rule match_open_append)
    have m2: "match_open (drop i' ?doc') = match_open ?u"
      unfolding d2 using k' by (rule match_open_append)
    have "match_open ?u = None"
    proof (cases "match_open ?u")
      case None
      then show ?thesis .
    next
      case (Some n')
      then obtain "n' \<le> length ?u" by (rule match_open_SomeD)
      with lu i' have n': "i' + n' \<le> i + n + j" by simp
      from p(5) [OF i'] Some m1
      have "index_of ci ''</span>'' (drop n' (drop i' doc)) = None"
        by (simp add: match_at_def split: option.splits)
      moreover have "starts_with ci ''</span>'' (drop (i + n + j - (i' + n')) (drop n' (drop i' doc)))"
        using p(3) n' by (simp add: add.commute)
      moreover have "i + n + j - (i' + n') \<le> length (drop n' (drop i' doc))"
        using p(4) n' by simp
      ultimately show ?thesis using index_of_None by blast
    qed
    with m2 show "match_at (drop i' ?doc') = None"
      by (simp only: match_at_def option.case)
  qed
qed

text \<open>
  The tagged branch with content free of dollar signs: the new document is the old one
  with the text between the two groups replaced by the content.  When the content holds
  no \<open></span>\<close> either, the new document is a fixed point of the patch.
\<close>

lemma split_at_region:
  "doc = take i doc @ take n (drop i doc) @ take j (drop (i + n) doc)
           @ take 7 (drop (i + n + j) doc) @ drop (i + n + j + 7) doc"
  by (metis append_take_drop_id drop_drop add.commute)

lemma nextReadme_tagged:
  assumes e: "spanPattern_exec doc = Some (i, n, j)" and d: "CHR ''$'' \<notin> set F"
  shows "nextReadme config F doc
           = Some (take i doc @ take n (drop i doc) @ F
                     @ take 7 (drop (i + n + j) doc) @ drop (i + n + j + 7) doc)"
proof -
  from e have "spanPattern_test doc" by (simp add: spanPattern_test_def)
  then show ?thesis
    by (simp only: nextReadme_def if_True replace_spanPattern_frame [OF e d])
qed

lemma nextReadme_tagged_fixed:
  assumes e: "spanPattern_exec doc = Some (i, n, j)" and d: "CHR ''$'' \<notin> set F"
    and c: "\<not> includes_ci F ''</span>''"
    and n: "nextReadme config F doc = Some doc'"
  shows "nextReadme config F doc' = Some doc'"
proof -
  let ?pre = "take i doc" and ?g1 = "take n (drop i doc)"
  let ?g2 = "take 7 (drop (i + n + j) doc)" and ?post = "drop (i + n + j + 7) doc"
  from n nextReadme_tagged [OF e d, of config]
  have doc': "doc' = ?pre @ ?g1 @ F @ ?g2 @ ?post" by simp
  note p = spanPattern_exec_parts [OF e]
  from p(4) have l: "length ?pre = i" "length ?g1 = n" "length ?g2 = 7" by simp_all
  have e': "spanPattern_exec doc' = Some (i, n, length F)"
    unfolding doc' using e c by (rule spanPattern_exec_patched)
  have "take i doc' = ?pre" "take n (drop i doc') = ?g1"
    "take 7 (drop (i + n + length F) doc') = ?g2"
    "drop (i + n + length F + 7) doc' = ?post"
    unfolding doc' using l by simp_all
  with nextReadme_tagged [OF e' d, of config] show ?thesis
    by (simp only: doc')
qed

text \<open>\<open>updateReadme\<close> once the document is fetched.\<close>

lemma updateReadme_noop:
  assumes "fetched rt response doc"
    and "nextReadme config (formatTrack now track) doc = Some doc"
  shows "updateReadme config rt now response put track = (Inr False, [GithubGet])"
  using assms by (simp add: updateReadme_def fetched_def Let_def)

lemma updateReadme_write:
  assumes "fetched rt response doc"
    and "nextReadme config (formatTrack now track) doc = Some nxt" and "nxt \<noteq> doc"
    and "\<And>body. ok (put body)"
  shows "\<exists>body. updateReadme config rt now response put track
                  = (Inr True, [GithubGet, GithubPut body])
               \<and> PutBody.content body = Buffer_base64 rt nxt"
  using assms by (simp add: updateReadme_def fetched_def Let_def)

section \<open>No-op detection, the frame of the patch and the placeholder upgrade\<close>

text \<open>
  Claim C2 says that patching a document with a tagged region and patching again with
  the same rendered content sends no write the second time.  The content is inserted as
  it is, and the lazy match ends at the first \<open></span>\<close>: with a title that holds
  \<open></span>\<close> the second patch matches a shorter region, changes the document and
  writes it.
\<close>

theorem C2_counterexample:
  "spanPattern_test ''<span data-music>old</span>''
   \<and> nextReadme example_config (formatTrack 0 closing_title) ''<span data-music>old</span>''
       = Some once_patched
   \<and> fetched example_runtime (answer_with once_patched) once_patched
   \<and> updateReadme example_config example_runtime 0 (answer_with once_patched) accepting_put
         closing_title
       = (Inr True,
          [GithubGet,
           GithubPut \<lparr> message = ''docs(readme): music -> </span> by Artist X'',
                       PutBody.content = twice_patched, PutBody.sha = ''abc'',
                       branch = ''main'' \<rparr>])"
  by code_simp

text \<open>
  Claim C2, amended.  Whenever the document that results from the replacement equals
  the fetched one, \<open>updateReadme\<close> sends no PUT and returns false.  In particular, when
  a document with a tagged region is patched with rendered content that holds no dollar
  sign and no \<open></span>\<close> (in any case), and the result is fetched and patched again
  with the same rendered content, the second patch sends no PUT and returns false.
\<close>

theorem C2_noop_detection:
  "(fetched rt response doc \<and> nextReadme config (formatTrack now track) doc = Some doc
      \<longrightarrow> updateReadme config rt now response put track = (Inr False, [GithubGet]))
   \<and> (spanPattern_test doc1
       \<and> CHR ''$'' \<notin> set (formatTrack now1 track1)
       \<and> \<not> includes_ci (formatTrack now1 track1) ''</span>''
       \<and> nextReadme config (formatTrack now1 track1) doc1 = Some doc2
       \<and> fetched rt response2 doc2
       \<and> formatTrack now2 track2 = formatTrack now1 track1
      \<longrightarrow> updateReadme config rt now2 response2 put track2 = (Inr False, [GithubGet]))"
proof (intro conjI impI)
  assume "fetched rt response doc \<and> nextReadme config (formatTrack now track) doc = Some doc"
  then show "updateReadme config rt now response put track = (Inr False, [GithubGet])"
    by (blast intro: updateReadme_noop)
next
  assume a: "spanPattern_test doc1
       \<and> CHR ''$'' \<notin> set (formatTrack now1 track1)
       \<and> \<not> includes_ci (formatTrack now1 track1) ''</span>''
       \<and> nextReadme config (formatTrack now1 track1) doc1 = Some doc2
       \<and> fetched rt response2 doc2
       \<and> formatTrack now2 track2 = formatTrack now1 track1"
  then obtain i n j where e: "spanPattern_exec doc1 = Some (i, n, j)"
    by (auto simp: spanPattern_test_def)
  from a have "nextReadme config (formatTrack now1 track1) doc2 = Some doc2"
    using nextReadme_tagged_fixed [OF e] by blast
  with a have "nextReadme config (formatTrack now2 track2) doc2 = Some doc2" by simp
  with a show "updateReadme config rt now2 response2 put track2 = (Inr False, [GithubGet])"
    by (blast intro: updateReadme_noop)
qed

theorem C2_noop_detection_witness:
  \<open>nextReadme example_config (formatTrack 0 song_a) ''# Hi <SPAN id="np" data-music>old</Span> bye''
     = Some song_a_patched
   \<and> updateReadme example_config example_runtime 5000 (answer_with song_a_patched) rejecting_put
         song_a
       = (Inr False, [GithubGet])\<close>
proof -
  let ?doc1 = \<open>''# Hi <SPAN id="np" data-music>old</Span> bye''\<close>
  have n: "nextReadme example_config (formatTrack 0 song_a) ?doc1 = Some song_a_patched"
    by code_simp
  have t: "spanPattern_test ?doc1" by code_simp
  have d: "CHR ''$'' \<notin> set (formatTrack 0 song_a)" by code_simp
  have c: "\<not> includes_ci (formatTrack 0 song_a) ''</span>''" by code_simp
  have f: "fetched example_runtime (answer_with song_a_patched) song_a_patched"
    by code_simp
  have s: "formatTrack 5000 song_a = formatTrack 0 song_a" by code_simp
  from C2_noop_detection [THEN conjunct2, rule_format, OF conjI [OF t conjI [OF d conjI [OF c conjI [OF n conjI [OF f s]]]]]]
  have "updateReadme example_config example_runtime 5000 (answer_with song_a_patched) rejecting_put
         song_a = (Inr False, [GithubGet])" .
  with n show ?thesis by (rule conjI)
qed

text \<open>
  Claim C5: the patch of a tagged region replaces the text between the markers by the
  rendered content and leaves everything else as it is.  The rendered content is spliced
  into the replacement template between \<open>$1\<close> and \<open>$2\<close>, so a dollar sign in it is
  read as part of the template.  With the title \<open>Ca$$h\<close> the region receives \<open>Ca$h\<close>;
  with the title \<open>$100 Bill\<close> it receives a copy of the opening marker followed by
  \<open>00 Bill\<close>.  In both cases the region is not the rendered content.
\<close>

theorem C5_dollar_in_content:
  "spanPattern_test ''<span data-music>old</span>''
   \<and> formatTrack 0 cash_title = ''<samp><strong>Ca$$h</strong><br/>by Artist X</samp>''
   \<and> nextReadme example_config (formatTrack 0 cash_title) ''<span data-music>old</span>''
       = Some ''<span data-music><samp><strong>Ca$h</strong><br/>by Artist X</samp></span>''
   \<and> formatTrack 0 hundred_title = ''<samp><strong>$100 Bill</strong><br/>by Artist X</samp>''
   \<and> nextReadme example_config (formatTrack 0 hundred_title) ''<span data-music>old</span>''
       = Some ''<span data-music><samp><strong><span data-music>00 Bill</strong><br/>by Artist X</samp></span>''"
  by code_simp

text \<open>For rendered content without a dollar sign the frame property holds.\<close>

lemma tagged_region_frame:
  assumes "spanPattern_exec doc = Some (i, n, j)" and "CHR ''$'' \<notin> set (formatTrack now track)"
  shows "nextReadme config (formatTrack now track) doc
           = Some (take i doc @ take n (drop i doc) @ formatTrack now track
                     @ take 7 (drop (i + n + j) doc) @ drop (i + n + j + 7) doc)
         \<and> doc = take i doc @ take n (drop i doc) @ take j (drop (i + n) doc)
                     @ take 7 (drop (i + n + j) doc) @ drop (i + n + j + 7) doc"
  using nextReadme_tagged [OF assms] split_at_region by blast

text \<open>The placeholder branch.\<close>

lemma replace_string_plain:
  assumes "index_of exact pat doc = Some i" and "CHR ''$'' \<notin> set template"
  shows "replace_string doc pat template = take i doc @ template @ drop (i + length pat) doc"
  using assms by (simp add: replace_string_def GetSubstitution_plain)

lemma nextReadme_placeholder:
  assumes t: "\<not> spanPattern_test doc" and i: "index_of exact (placeholder config) doc = Some i"
    and d: "CHR ''$'' \<notin> set F"
  shows "nextReadme config F doc
           = Some (take i doc @ ''<span data-music>'' @ F @ ''</span>''
                     @ drop (i + length (placeholder config)) doc)"
proof -
  from d have "CHR ''$'' \<notin> set (''<span data-music>'' @ F @ ''</span>'')" by simp
  from replace_string_plain [OF i this] t i show ?thesis
    by (simp only: nextReadme_def includes_js_def if_False if_True append_assoc
          option.distinct not_False_eq_True simp_thms)
qed

lemma match_open_marker: "match_open (''<span data-music>'' @ v) = Some 17"
proof -
  have "match_open ''<span data-music>'' = Some 17" by code_simp
  from match_open_take [OF this, of v] show ?thesis by simp
qed

lemma spanPattern_exec_installed:
  assumes c: "\<not> includes_ci F ''</span>''"
    and b: "\<And>i'. i' < length pre \<Longrightarrow>
              match_open (drop i' (pre @ ''<span data-music>'' @ F @ ''</span>'' @ post)) = None"
  shows "spanPattern_exec (pre @ ''<span data-music>'' @ F @ ''</span>'' @ post)
           = Some (length pre, 17, length F)"
proof (rule spanPattern_exec_SomeI)
  have "index_of ci ''</span>'' F = None" using c by (simp add: includes_ci_def)
  moreover have "starts_with ci ''</span>'' (''</span>'' @ post)"
    by (simp add: ci_def)
  ultimately have "index_of ci ''</span>'' (F @ ''</span>'' @ post) = Some (length F)"
    by (rule index_of_close_tag)
  moreover have "drop (length pre) (pre @ ''<span data-music>'' @ F @ ''</span>'' @ post)
                   = ''<span data-music>'' @ F @ ''</span>'' @ post" by simp
  moreover have "drop 17 (''<span data-music>'' @ F @ ''</span>'' @ post) = F @ ''</span>'' @ post"
    by simp
  ultimately show "match_at (drop (length pre) (pre @ ''<span data-music>'' @ F @ ''</span>'' @ post))
          = Some (17, length F)"
    using match_open_marker [of "F @ ''</span>'' @ post"]
    by (simp only: match_at_def option.case)
next
  fix i' assume "i' < length pre"
  from b [OF this]
  show "match_at (drop i' (pre @ ''<span data-music>'' @ F @ ''</span>'' @ post)) = None"
    by (simp only: match_at_def option.case)
qed

lemma nextReadme_region_fixed:
  assumes e: "spanPattern_exec (pre @ g1 @ F @ g2 @ post) = Some (length pre, length g1, length F)"
    and g: "length g2 = 7" and d: "CHR ''$'' \<notin> set F"
  shows "nextReadme config F (pre @ g1 @ F @ g2 @ post) = Some (pre @ g1 @ F @ g2 @ post)"
proof -
  let ?d = "pre @ g1 @ F @ g2 @ post"
  have "take (length pre) ?d = pre" "take (length g1) (drop (length pre) ?d) = g1"
    "take 7 (drop (length pre + length g1 + length F) ?d) = g2"
    "drop (length pre + length g1 + length F + 7) ?d = post"
    using g by simp_all
  with nextReadme_tagged [OF e d, of config] show ?thesis by (simp only:)
qed

lemma nextReadme_installed_fixed:
  assumes c: "\<not> includes_ci F ''</span>''" and d: "CHR ''$'' \<notin> set F"
    and b: "\<And>i'. i' < length pre \<Longrightarrow>
              match_open (drop i' (pre @ ''<span data-music>'' @ F @ ''</span>'' @ post)) = None"
  shows "nextReadme config F (pre @ ''<span data-music>'' @ F @ ''</span>'' @ post)
           = Some (pre @ ''<span data-music>'' @ F @ ''</span>'' @ post)"
proof (rule nextReadme_region_fixed)
  have "length ''<span data-music>'' = 17" by simp
  with spanPattern_exec_installed [OF c b]
  show "spanPattern_exec (pre @ ''<span data-music>'' @ F @ ''</span>'' @ post)
          = Some (length pre, length ''<span data-music>'', length F)"
    by (simp only:)
  show "length ''</span>'' = 7" by simp
  show "CHR ''$'' \<notin> set F" by (rule d)
qed

text \<open>
  Claim C6 says that after the placeholder of a document without tagged region has been
  replaced, a second patch with the same rendered content is a no-op.  Two documents on
  which the second patch writes: one with an opening marker that is never closed before
  the placeholder (the second patch matches from that marker on), and one patched with
  a title that holds \<open></span>\<close> (the second patch matches a shorter region).
\<close>

theorem C6_counterexample:
  "\<not> spanPattern_test unclosed_doc
   \<and> includes_js unclosed_doc (placeholder example_config)
   \<and> nextReadme example_config (formatTrack 0 song_b) unclosed_doc = Some unclosed_installed
   \<and> fetched example_runtime (answer_with unclosed_installed) unclosed_installed
   \<and> updateReadme example_config example_runtime 0 (answer_with unclosed_installed)
         accepting_put song_b
       = (Inr True,
          [GithubGet,
           GithubPut \<lparr> message = ''docs(readme): music -> Song B by Artist X'',
                       PutBody.content
                         = ''<span data-music><samp><strong>Song B</strong><br/>by Artist X</samp></span>'',
                       PutBody.sha = ''abc'', branch = ''main'' \<rparr>])
   \<and> \<not> spanPattern_test ''%music%''
   \<and> includes_js ''%music%'' (placeholder example_config)
   \<and> nextReadme example_config (formatTrack 0 closing_title) ''%music%'' = Some once_patched
   \<and> updateReadme example_config example_runtime 0 (answer_with once_patched) accepting_put
         closing_title
       = (Inr True,
          [GithubGet,
           GithubPut \<lparr> message = ''docs(readme): music -> </span> by Artist X'',
                       PutBody.content = twice_patched, PutBody.sha = ''abc'',
                       branch = ''main'' \<rparr>])"
  by code_simp

text \<open>
  Claim C6, amended.  For a document without tagged region that contains the
  placeholder, and rendered content without dollar sign, the patch replaces the first
  occurrence of the placeholder by the rendered content wrapped in
  \<open><span data-music>\<close> and \<open></span>\<close>.  When moreover the rendered content holds no
  \<open></span>\<close> and no opening marker starts before the installed region, the pattern
  matches the installed region, and a second patch of that document with the same
  rendered content sends no PUT and returns false.
\<close>

theorem C6_placeholder_upgrade:
  assumes t: "\<not> spanPattern_test doc"
    and i: "index_of exact (placeholder config) doc = Some i"
    and d: "CHR ''$'' \<notin> set (formatTrack now track)"
    and c: "\<not> includes_ci (formatTrack now track) ''</span>''"
    and p: "patched = take i doc @ ''<span data-music>'' @ formatTrack now track @ ''</span>''
                        @ drop (i + length (placeholder config)) doc"
    and b: "\<forall>i'<i. match_open (drop i' patched) = None"
    and f: "fetched rt response patched"
    and s: "formatTrack now' track' = formatTrack now track"
  shows "doc = take i doc @ placeholder config @ drop (i + length (placeholder config)) doc
       \<and> nextReadme config (formatTrack now track) doc = Some patched
       \<and> spanPattern_exec patched = Some (i, 17, length (formatTrack now track))
       \<and> updateReadme config rt now' response put track' = (Inr False, [GithubGet])"
proof -
  let ?F = "formatTrack now track"
  let ?pre = "take i doc" and ?post = "drop (i + length (placeholder config)) doc"
  from index_of_bound [OF i] have l: "length ?pre = i" by simp
  have 1: "doc = ?pre @ placeholder config @ ?post"
    using i by (rule index_of_exact_split)
  have 2: "nextReadme config ?F doc = Some patched"
    unfolding p using t i d by (rule nextReadme_placeholder)
  have b': "match_open (drop i' (?pre @ ''<span data-music>'' @ ?F @ ''</span>'' @ ?post)) = None"
    if "i' < length ?pre" for i'
    using b that l p by simp
  have 3: "spanPattern_exec patched = Some (i, 17, length ?F)"
    using spanPattern_exec_installed [OF c b'] l p by simp
  have "nextReadme config ?F patched = Some patched"
    unfolding p using c d b' by (rule nextReadme_installed_fixed)
  with s have "nextReadme config (formatTrack now' track') patched = Some patched" by simp
  with f have 4: "updateReadme config rt now' response put track' = (Inr False, [GithubGet])"
    by (rule updateReadme_noop)
  from 1 2 3 4 show ?thesis by blast
qed

theorem C6_placeholder_upgrade_witness:
  "nextReadme example_config (formatTrack 0 song_a) placeholder_doc = Some placeholder_installed
   \<and> spanPattern_exec placeholder_installed = Some (17, 17, length (formatTrack 0 song_a))
   \<and> updateReadme example_config example_runtime 5000 (answer_with placeholder_installed)
         rejecting_put song_a
       = (Inr False, [GithubGet])"
proof -
  have t: "\<not> spanPattern_test placeholder_doc" by code_simp
  have i: "index_of exact (placeholder example_config) placeholder_doc = Some 17" by code_simp
  have d: "CHR ''$'' \<notin> set (formatTrack 0 song_a)" by code_simp
  have c: "\<not> includes_ci (formatTrack 0 song_a) ''</span>''" by code_simp
  have p: "placeholder_installed
             = take 17 placeholder_doc @ ''<span data-music>'' @ formatTrack 0 song_a @ ''</span>''
                 @ drop (17 + length (placeholder example_config)) placeholder_doc"
    by code_simp
  have "list_all (\<lambda>i'. match_open (drop i' placeholder_installed) = None) [0..<17]"
    by code_simp
  then have b: "\<forall>i'<17. match_open (drop i' placeholder_installed) = None"
    by (simp add: list_all_iff)
  have f: "fetched example_runtime (answer_with placeholder_installed) placeholder_installed"
    by code_simp
  have s: "formatTrack 5000 song_a = formatTrack 0 song_a" by code_simp
  from C6_placeholder_upgrade [OF t i d c p b f s, of rejecting_put]
  show ?thesis by blast
qed

section \<open>The poll cycle and the conditional write\<close>

text \<open>
  What \<open>updateReadme\<close> can do: send the GET alone and not report a write, or send the
  GET and one PUT that carries the revision token of the GET's answer, and then report
  a write when the host accepts and throw when it rejects.
\<close>

lemma updateReadme_outcomes:
  assumes u: "updateReadme config rt now response put track = (r, reqs)"
  shows "(reqs = [GithubGet] \<and> r \<noteq> Inr True)
     \<or> (\<exists>body. reqs = [GithubGet, GithubPut body]
           \<and> PutBody.sha body = GithubContentResponse.sha (json response)
           \<and> (if ok (put body) then r = Inr True
                else r = Inl (GithubUpdateFailed (status (put body)))))"
proof -
  let ?data = "json response"
  let ?decoded = "Buffer_decode rt (the (GithubContentResponse.content ?data))
                    (nullish (encoding ?data) ''base64'')"
  let ?next = "nextReadme config (formatTrack now track) ?decoded"
  consider (nofetch) "\<not> ok response"
    | (missing) "ok response" "type ?data \<noteq> Some ''file'' \<or> \<not> truthy (GithubContentResponse.content ?data)"
    | (skip) "ok response" "\<not> (type ?data \<noteq> Some ''file'' \<or> \<not> truthy (GithubContentResponse.content ?data))"
        "?next = None"
    | (same) "ok response" "\<not> (type ?data \<noteq> Some ''file'' \<or> \<not> truthy (GithubContentResponse.content ?data))"
        "?next = Some ?decoded"
    | (changed) nxt where "ok response"
        "\<not> (type ?data \<noteq> Some ''file'' \<or> \<not> truthy (GithubContentResponse.content ?data))"
        "?next = Some nxt" "nxt \<noteq> ?decoded"
    by (cases ?next) auto
  then show ?thesis
  proof cases
    case nofetch
    with u show ?thesis by (auto simp: updateReadme_def)
  next
    case missing
    with u show ?thesis by (auto simp: updateReadme_def Let_def)
  next
    case skip
    with u show ?thesis by (auto simp: updateReadme_def Let_def)
  next
    case same
    with u show ?thesis by (auto simp: updateReadme_def Let_def)
  next
    case changed
    let ?body = "\<lparr> message = ''docs(readme): music -> '' @ TrackInfo.title track
                                                @ '' by '' @ TrackInfo.artist track,
                                     PutBody.content = Buffer_base64 rt nxt,
                                     PutBody.sha = GithubContentResponse.sha ?data,
                                     branch = githubBranch config \<rparr>"
    from u changed have
      "(if \<not> ok (put ?body)
        then (Inl (GithubUpdateFailed (status (put ?body))), [GithubGet, GithubPut ?body])
        else (Inr True, [GithubGet, GithubPut ?body])) = (r, reqs)"
      by (simp only: updateReadme_def Let_def if_True if_False not_True_eq_False
            not_False_eq_True option.case simp_thms)
    then have "reqs = [GithubGet, GithubPut ?body]
           \<and> PutBody.sha ?body = GithubContentResponse.sha (json response)
           \<and> (if ok (put ?body) then r = Inr True
                else r = Inl (GithubUpdateFailed (status (put ?body))))"
      by (cases "ok (put ?body)") auto
    then show ?thesis by blast
  qed
qed

text \<open>
  Claim C3.  In every poll cycle the requests sent after the status fetch are none, the
  document GET alone, or the GET and exactly one PUT; the PUT carries the revision token
  the GET returned; when the host rejects the PUT the cycle ends with the error of the
  rejected update and the status cache is what it was; and the cache is left as it was
  in every cycle in which no PUT was sent, so it is written only after an accepted PUT.
\<close>

theorem C3_rejected_write:
  "\<exists>reqs. sent (snd (tick config rt env w)) = sent w @ LastFmGet # reqs
     \<and> ((reqs = [] \<or> reqs = [GithubGet]) \<and> cache (snd (tick config rt env w)) = cache w
        \<or> (\<exists>body. reqs = [GithubGet, GithubPut body]
              \<and> PutBody.sha body = GithubContentResponse.sha (json (github_get env))
              \<and> (if ok (github_put env body)
                  then fst (tick config rt env w) = Inr ()
                  else fst (tick config rt env w)
                         = Inl (GithubUpdateFailed (status (github_put env body)))
                       \<and> cache (snd (tick config rt env w)) = cache w)))"
proof (cases "fetchRecentTrack rt (now_fetch env) (lastfm_answer env)")
  case (Inl e)
  then show ?thesis by (simp add: tick_def)
next
  case (Inr found)
  show ?thesis
  proof (cases found)
    case None
    with Inr show ?thesis by (simp add: tick_def)
  next
    case (Some track)
    show ?thesis
    proof (cases "shouldUpdate config rt (now_decide env) track (cache w)")
      case False
      with Inr Some show ?thesis by (simp add: tick_def)
    next
      case True
      obtain r reqs where
        u: "updateReadme config rt (now_render env) (github_get env) (github_put env) track
              = (r, reqs)"
        by (cases "updateReadme config rt (now_render env) (github_get env) (github_put env) track")
      from updateReadme_outcomes [OF u] show ?thesis
      proof
        assume "reqs = [GithubGet] \<and> r \<noteq> Inr True"
        with Inr Some True u show ?thesis
          by (cases r) (auto simp: tick_def Let_def)
      next
        assume "\<exists>body. reqs = [GithubGet, GithubPut body]
           \<and> PutBody.sha body = GithubContentResponse.sha (json (github_get env))
           \<and> (if ok (github_put env body) then r = Inr True
                else r = Inl (GithubUpdateFailed (status (github_put env body))))"
        then obtain body where b: "reqs = [GithubGet, GithubPut body]"
          "PutBody.sha body = GithubContentResponse.sha (json (github_get env))"
          "if ok (github_put env body) then r = Inr True
                else r = Inl (GithubUpdateFailed (status (github_put env body)))"
          by blast
        with Inr Some True u show ?thesis
          by (cases "ok (github_put env body)") (auto simp: tick_def Let_def saveCache_def)
      qed
    qed
  qed
qed

lemma rejected_cycle_sent:
  "sent (snd (tick example_config example_runtime rejected_cycle first_run))
     = [LastFmGet, GithubGet, GithubPut rejected_body]"
  by code_simp

theorem C3_rejected_write_witness:
  "sent (snd (tick example_config example_runtime rejected_cycle first_run))
     = [LastFmGet, GithubGet, GithubPut rejected_body]
   \<and> PutBody.sha rejected_body = GithubContentResponse.sha (json (github_get rejected_cycle))
   \<and> fst (tick example_config example_runtime rejected_cycle first_run)
       = Inl (GithubUpdateFailed 409)
   \<and> cache (snd (tick example_config example_runtime rejected_cycle first_run)) = None"
proof -
  let ?t = "tick example_config example_runtime rejected_cycle first_run"
  from C3_rejected_write [of example_config example_runtime rejected_cycle first_run]
  obtain reqs where
    s: "sent (snd ?t) = sent first_run @ LastFmGet # reqs"
    and c: "(reqs = [] \<or> reqs = [GithubGet]) \<and> cache (snd ?t) = cache first_run
        \<or> (\<exists>body. reqs = [GithubGet, GithubPut body]
              \<and> PutBody.sha body = GithubContentResponse.sha (json (github_get rejected_cycle))
              \<and> (if ok (github_put rejected_cycle body)
                  then fst ?t = Inr ()
                  else fst ?t = Inl (GithubUpdateFailed (status (github_put rejected_cycle body)))
                       \<and> cache (snd ?t) = cache first_run))"
    by blast
  have "sent first_run = []" by (simp add: first_run_def)
  with s rejected_cycle_sent have r: "reqs = [GithubGet, GithubPut rejected_body]"
    by simp
  have p: "\<not> ok (github_put rejected_cycle b)" "status (github_put rejected_cycle b) = 409" for b
    by (simp_all add: rejected_cycle_def rejecting_put_def)
  from c r p have "PutBody.sha rejected_body = GithubContentResponse.sha (json (github_get rejected_cycle))
     \<and> fst ?t = Inl (GithubUpdateFailed 409) \<and> cache (snd ?t) = cache first_run"
    by auto
  moreover have "cache first_run = None" by (simp add: first_run_def)
  ultimately show ?thesis using rejected_cycle_sent by simp
qed


end
